theory Spec2Isabelle
  imports Main "HOL-Library.Word"
begin

section \<open>Input event bridge (src/modules/window/ppapi/Input.cpp)\<close>

text \<open>
  The host (Pepper) event is read only through its getters, so it is a record of what the
  getters return. Integers that the code merely copies (positions, movements) are
  \<open>int\<close>; \<open>uint32_t\<close> values (modifiers, key codes) are 32-bit words, compared
  unsigned as in C++; a \<open>float\<close> is carried as its 32 bits, since the code only copies it.
  \<open>PP_InputEvent_Type\<close> lists the ten event types that the first \<open>switch\<close> of
  \<open>ConvertEvent\<close> handles; for any other type the code leaves \<open>type\<close> uninitialised,
  which has no defined behaviour, so such events are not part of the model.
\<close>

type_synonym uint32_t = "32 word"
type_synonym float32 = "32 word"

datatype PP_InputEvent_Type =
    PP_INPUTEVENT_TYPE_MOUSEDOWN
  | PP_INPUTEVENT_TYPE_MOUSEUP
  | PP_INPUTEVENT_TYPE_MOUSEMOVE
  | PP_INPUTEVENT_TYPE_MOUSEENTER
  | PP_INPUTEVENT_TYPE_MOUSELEAVE
  | PP_INPUTEVENT_TYPE_WHEEL
  | PP_INPUTEVENT_TYPE_RAWKEYDOWN
  | PP_INPUTEVENT_TYPE_KEYDOWN
  | PP_INPUTEVENT_TYPE_KEYUP
  | PP_INPUTEVENT_TYPE_CHAR

datatype PP_InputEvent_MouseButton =
    PP_INPUTEVENT_MOUSEBUTTON_NONE
  | PP_INPUTEVENT_MOUSEBUTTON_LEFT
  | PP_INPUTEVENT_MOUSEBUTTON_MIDDLE
  | PP_INPUTEVENT_MOUSEBUTTON_RIGHT

record pp_InputEvent =
  GetType :: PP_InputEvent_Type
  GetModifiers :: uint32_t
  GetPosition :: "int \<times> int"
  GetMovement :: "int \<times> int"
  GetButton :: PP_InputEvent_MouseButton
  GetDelta :: "float32 \<times> float32"
  GetTicks :: "float32 \<times> float32"
  GetScrollByPage :: bool
  GetKeyCode :: uint32_t
  GetCharacterText :: string

datatype MouseEventType = MOUSE_DOWN | MOUSE_UP | MOUSE_MOVE | MOUSE_ENTER | MOUSE_LEAVE

datatype KeyEventType = RAW_KEY_DOWN | KEY_DOWN | KEY_UP

text \<open>
  \<open>enum MouseButton\<close> is declared in Input.h, which is not among the sources. Its
  enumerators are numbered in declaration order, the order that the range check of
  \<open>IsMouseButtonPressed\<close> relies on: \<open>MOUSE_NONE\<close> lowest, \<open>MOUSE_BUTTON_MAX\<close> highest.
  A button is its enumerator value, so that a caller can pass a value outside the range.
\<close>

type_synonym MouseButton = int

abbreviation (input) MOUSE_NONE :: MouseButton where "MOUSE_NONE \<equiv> 0"
abbreviation (input) MOUSE_LEFT :: MouseButton where "MOUSE_LEFT \<equiv> 1"
abbreviation (input) MOUSE_MIDDLE :: MouseButton where "MOUSE_MIDDLE \<equiv> 2"
abbreviation (input) MOUSE_RIGHT :: MouseButton where "MOUSE_RIGHT \<equiv> 3"
abbreviation (input) MOUSE_BUTTON_MAX :: MouseButton where "MOUSE_BUTTON_MAX \<equiv> 4"

datatype MouseEvent = MouseEvent
  (mouse_type: MouseEventType) (mouse_button: MouseButton)
  (mouse_x: int) (mouse_y: int) (movement_x: int) (movement_y: int)

datatype WheelEvent = WheelEvent
  (delta_x: float32) (delta_y: float32) (ticks_x: float32) (ticks_y: float32)
  (scroll_by_page: bool)

datatype KeyEvent = KeyEvent (key_type: KeyEventType) (key_code: uint32_t)

text \<open>
  \<open>character_text\<close> holds the bytes that \<open>ConvertEvent\<close> writes into the
  \<open>character.text\<close> array, in order from index 0.
\<close>

datatype CharacterEvent = CharacterEvent (character_text: "char list")

text \<open>
  The C++ \<open>InputEvent\<close> is a type tag, the modifiers and a union; the tag is the
  constructor of \<open>EventUnion\<close> (\<open>INPUT_MOUSE\<close>, \<open>INPUT_WHEEL\<close>, \<open>INPUT_KEY\<close>,
  \<open>INPUT_CHARACTER\<close>), and only the member that the tag selects is ever read.
\<close>

datatype EventUnion =
    INPUT_MOUSE MouseEvent
  | INPUT_WHEEL WheelEvent
  | INPUT_KEY KeyEvent
  | INPUT_CHARACTER CharacterEvent

record InputEvent =
  modifiers :: uint32_t
  event :: EventUnion

text \<open>
  \<open>strncpy dst src n\<close> writes exactly \<open>n\<close> bytes: the characters of \<open>src\<close> up to
  its first NUL, at most \<open>n\<close> of them, then NUL bytes up to \<open>n\<close>. When \<open>src\<close> has
  \<open>n\<close> or more characters no NUL is written. The value is the \<open>n\<close> bytes written.
\<close>

definition strncpy :: "string \<Rightarrow> nat \<Rightarrow> char list" where
  "strncpy src n =
     (let s = takeWhile (\<lambda>c. c \<noteq> CHR 0x00) src
      in take n s @ replicate (n - length s) (CHR 0x00))"

definition convert_button :: "PP_InputEvent_MouseButton \<Rightarrow> MouseButton" where
  "convert_button b =
     (case b of
        PP_INPUTEVENT_MOUSEBUTTON_NONE \<Rightarrow> MOUSE_NONE
      | PP_INPUTEVENT_MOUSEBUTTON_LEFT \<Rightarrow> MOUSE_LEFT
      | PP_INPUTEVENT_MOUSEBUTTON_MIDDLE \<Rightarrow> MOUSE_MIDDLE
      | PP_INPUTEVENT_MOUSEBUTTON_RIGHT \<Rightarrow> MOUSE_RIGHT)"

definition convert_mouse :: "MouseEventType \<Rightarrow> pp_InputEvent \<Rightarrow> InputEvent" where
  "convert_mouse t in_event =
     \<lparr>modifiers = GetModifiers in_event,
      event = INPUT_MOUSE (MouseEvent t (convert_button (GetButton in_event))
        (fst (GetPosition in_event)) (snd (GetPosition in_event))
        (fst (GetMovement in_event)) (snd (GetMovement in_event)))\<rparr>"

definition convert_wheel :: "pp_InputEvent \<Rightarrow> InputEvent" where
  "convert_wheel in_event =
     \<lparr>modifiers = GetModifiers in_event,
      event = INPUT_WHEEL (WheelEvent
        (fst (GetDelta in_event)) (snd (GetDelta in_event))
        (fst (GetTicks in_event)) (snd (GetTicks in_event))
        (GetScrollByPage in_event))\<rparr>"

definition convert_key :: "KeyEventType \<Rightarrow> pp_InputEvent \<Rightarrow> InputEvent" where
  "convert_key t in_event =
     \<lparr>modifiers = GetModifiers in_event,
      event = INPUT_KEY (KeyEvent t (GetKeyCode in_event))\<rparr>"

definition convert_character :: "pp_InputEvent \<Rightarrow> InputEvent" where
  "convert_character in_event =
     \<lparr>modifiers = GetModifiers in_event,
      event = INPUT_CHARACTER (CharacterEvent (strncpy (GetCharacterText in_event) 5))\<rparr>"

definition ConvertEvent :: "pp_InputEvent \<Rightarrow> InputEvent" where
  "ConvertEvent in_event =
     (case GetType in_event of
        PP_INPUTEVENT_TYPE_MOUSEDOWN \<Rightarrow> convert_mouse MOUSE_DOWN in_event
      | PP_INPUTEVENT_TYPE_MOUSEUP \<Rightarrow> convert_mouse MOUSE_UP in_event
      | PP_INPUTEVENT_TYPE_MOUSEMOVE \<Rightarrow> convert_mouse MOUSE_MOVE in_event
      | PP_INPUTEVENT_TYPE_MOUSEENTER \<Rightarrow> convert_mouse MOUSE_ENTER in_event
      | PP_INPUTEVENT_TYPE_MOUSELEAVE \<Rightarrow> convert_mouse MOUSE_LEAVE in_event
      | PP_INPUTEVENT_TYPE_WHEEL \<Rightarrow> convert_wheel in_event
      | PP_INPUTEVENT_TYPE_RAWKEYDOWN \<Rightarrow> convert_key RAW_KEY_DOWN in_event
      | PP_INPUTEVENT_TYPE_KEYDOWN \<Rightarrow> convert_key KEY_DOWN in_event
      | PP_INPUTEVENT_TYPE_KEYUP \<Rightarrow> convert_key KEY_UP in_event
      | PP_INPUTEVENT_TYPE_CHAR \<Rightarrow> convert_character in_event)"

text \<open>
  The globals of the bridge. The two arrays are read and written only at indices that the
  code has checked (\<open>g_Keys\<close>) or that \<open>ConvertEvent\<close> produced (\<open>g_MouseButton\<close>), so
  they are functions from the index. \<open>KEY_CODE_MAX\<close> is declared in Input.h, which is
  not among the sources: it is the first argument of every function that uses it.
  The mutex makes each queue operation one atomic step; the model is the sequence of
  these steps.
\<close>

record InputState =
  g_InputEventQueue :: "InputEvent list"
  g_MouseX :: int
  g_MouseY :: int
  g_MouseButton :: "MouseButton \<Rightarrow> bool"
  g_Keys :: "uint32_t \<Rightarrow> bool"

definition InitialInputState :: InputState where
  "InitialInputState =
     \<lparr>g_InputEventQueue = [], g_MouseX = 0, g_MouseY = 0,
      g_MouseButton = (\<lambda>_. False), g_Keys = (\<lambda>_. False)\<rparr>"

definition GetMouseX :: "InputState \<Rightarrow> int" where
  "GetMouseX st = g_MouseX st"

definition GetMouseY :: "InputState \<Rightarrow> int" where
  "GetMouseY st = g_MouseY st"

definition IsMouseButtonPressed :: "InputState \<Rightarrow> MouseButton \<Rightarrow> bool" where
  "IsMouseButtonPressed st button =
     (if button \<le> MOUSE_NONE \<or> button \<ge> MOUSE_BUTTON_MAX then False
      else g_MouseButton st button)"

definition IsKeyPressed :: "uint32_t \<Rightarrow> InputState \<Rightarrow> uint32_t \<Rightarrow> bool" where
  "IsKeyPressed KEY_CODE_MAX st code =
     (if code \<ge> KEY_CODE_MAX then False else g_Keys st code)"

definition UpdateInputState :: "uint32_t \<Rightarrow> InputEvent \<Rightarrow> InputState \<Rightarrow> InputState" where
  "UpdateInputState KEY_CODE_MAX ev st =
     (case event ev of
        INPUT_MOUSE m \<Rightarrow>
          (let st1 = st\<lparr>g_MouseX := mouse_x m, g_MouseY := mouse_y m\<rparr>
           in case mouse_type m of
                MOUSE_DOWN \<Rightarrow> st1\<lparr>g_MouseButton := (g_MouseButton st1)(mouse_button m := True)\<rparr>
              | MOUSE_UP \<Rightarrow> st1\<lparr>g_MouseButton := (g_MouseButton st1)(mouse_button m := False)\<rparr>
              | _ \<Rightarrow> st1)
      | INPUT_KEY k \<Rightarrow>
          (case key_type k of
             KEY_DOWN \<Rightarrow>
               (if key_code k < KEY_CODE_MAX
                then st\<lparr>g_Keys := (g_Keys st)(key_code k := True)\<rparr> else st)
           | KEY_UP \<Rightarrow>
               (if key_code k < KEY_CODE_MAX
                then st\<lparr>g_Keys := (g_Keys st)(key_code k := False)\<rparr> else st)
           | _ \<Rightarrow> st)
      | _ \<Rightarrow> st)"

definition EnqueueEvent :: "uint32_t \<Rightarrow> pp_InputEvent \<Rightarrow> InputState \<Rightarrow> InputState" where
  "EnqueueEvent KEY_CODE_MAX ev st =
     (let converted_event = ConvertEvent ev;
          st1 = UpdateInputState KEY_CODE_MAX converted_event st
      in st1\<lparr>g_InputEventQueue := g_InputEventQueue st1 @ [converted_event]\<rparr>)"

text \<open>\<open>DequeueEvent\<close>: the returned flag and \<open>*out_event\<close> together are an option.\<close>

definition DequeueEvent :: "InputState \<Rightarrow> InputEvent option \<times> InputState" where
  "DequeueEvent st =
     (case g_InputEventQueue st of
        [] \<Rightarrow> (None, st)
      | e # q \<Rightarrow> (Some e, st\<lparr>g_InputEventQueue := q\<rparr>))"

text \<open>\<open>DequeueAllEvents\<close>: the first component is \<open>*out_events\<close> after the call.\<close>

definition DequeueAllEvents :: "InputState \<Rightarrow> InputEvent list \<times> InputState" where
  "DequeueAllEvents st = (g_InputEventQueue st, st\<lparr>g_InputEventQueue := []\<rparr>)"

text \<open>\<open>n\<close> successive calls of \<open>DequeueEvent\<close>, with what each returned.\<close>

fun DequeueEvent_times :: "nat \<Rightarrow> InputState \<Rightarrow> InputEvent option list \<times> InputState" where
  "DequeueEvent_times 0 st = ([], st)"
| "DequeueEvent_times (Suc n) st =
     (let (r, st1) = DequeueEvent st; (rs, st2) = DequeueEvent_times n st1
      in (r # rs, st2))"

text \<open>Any interleaving of calls on the bridge, run from left to right.\<close>

datatype InputCall = Enqueue pp_InputEvent | Dequeue | DequeueAll

fun input_call :: "uint32_t \<Rightarrow> InputState \<Rightarrow> InputCall \<Rightarrow> InputState" where
  "input_call K st (Enqueue ev) = EnqueueEvent K ev st"
| "input_call K st Dequeue = snd (DequeueEvent st)"
| "input_call K st DequeueAll = snd (DequeueAllEvents st)"

definition input_calls :: "uint32_t \<Rightarrow> InputCall list \<Rightarrow> InputState \<Rightarrow> InputState" where
  "input_calls K cs st = foldl (input_call K) st cs"

fun enqueued :: "InputCall list \<Rightarrow> InputEvent list" where
  "enqueued [] = []"
| "enqueued (Enqueue ev # cs) = ConvertEvent ev # enqueued cs"
| "enqueued (_ # cs) = enqueued cs"

text \<open>
  What the persistent state is compared with, following the words of the specification: the
  most recent down or up event of a key or of a mouse button in a sequence of events given in
  the order they were enqueued (\<open>Some True\<close> for down, \<open>Some False\<close> for up, \<open>None\<close> when
  there is no such event), and the position of the most recent mouse event.
\<close>

definition key_down_up :: "uint32_t \<Rightarrow> InputEvent \<Rightarrow> bool" where
  "key_down_up code ev =
     (case event ev of
        INPUT_KEY k \<Rightarrow> key_code k = code \<and> (key_type k = KEY_DOWN \<or> key_type k = KEY_UP)
      | _ \<Rightarrow> False)"

definition is_down :: "InputEvent \<Rightarrow> bool" where
  "is_down ev =
     (case event ev of
        INPUT_KEY k \<Rightarrow> key_type k = KEY_DOWN
      | INPUT_MOUSE m \<Rightarrow> mouse_type m = MOUSE_DOWN
      | _ \<Rightarrow> False)"

definition button_down_up :: "MouseButton \<Rightarrow> InputEvent \<Rightarrow> bool" where
  "button_down_up b ev =
     (case event ev of
        INPUT_MOUSE m \<Rightarrow> mouse_button m = b \<and> (mouse_type m = MOUSE_DOWN \<or> mouse_type m = MOUSE_UP)
      | _ \<Rightarrow> False)"

definition is_mouse :: "InputEvent \<Rightarrow> bool" where
  "is_mouse ev = (case event ev of INPUT_MOUSE m \<Rightarrow> True | _ \<Rightarrow> False)"

definition position :: "InputEvent \<Rightarrow> int \<times> int" where
  "position ev = (case event ev of INPUT_MOUSE m \<Rightarrow> (mouse_x m, mouse_y m) | _ \<Rightarrow> (0, 0))"

definition most_recent :: "(InputEvent \<Rightarrow> bool) \<Rightarrow> InputEvent list \<Rightarrow> InputEvent option" where
  "most_recent P evs = find P (rev evs)"

definition last_key_state :: "uint32_t \<Rightarrow> InputEvent list \<Rightarrow> bool option" where
  "last_key_state code evs = map_option is_down (most_recent (key_down_up code) evs)"

definition last_button_state :: "MouseButton \<Rightarrow> InputEvent list \<Rightarrow> bool option" where
  "last_button_state b evs = map_option is_down (most_recent (button_down_up b) evs)"

definition last_mouse_position :: "InputEvent list \<Rightarrow> (int \<times> int) option" where
  "last_mouse_position evs = map_option position (most_recent is_mouse evs)"

text \<open>Two host events used as concrete inputs.\<close>

definition char_event :: "string \<Rightarrow> pp_InputEvent" where
  "char_event s =
     \<lparr>GetType = PP_INPUTEVENT_TYPE_CHAR, GetModifiers = 0, GetPosition = (0, 0),
      GetMovement = (0, 0), GetButton = PP_INPUTEVENT_MOUSEBUTTON_NONE, GetDelta = (0, 0),
      GetTicks = (0, 0), GetScrollByPage = False, GetKeyCode = 0, GetCharacterText = s\<rparr>"

definition key_event :: "PP_InputEvent_Type \<Rightarrow> uint32_t \<Rightarrow> pp_InputEvent" where
  "key_event t code =
     \<lparr>GetType = t, GetModifiers = 0, GetPosition = (0, 0),
      GetMovement = (0, 0), GetButton = PP_INPUTEVENT_MOUSEBUTTON_NONE, GetDelta = (0, 0),
      GetTicks = (0, 0), GetScrollByPage = False, GetKeyCode = code, GetCharacterText = []\<rparr>"

definition mouse_event :: "PP_InputEvent_Type \<Rightarrow> PP_InputEvent_MouseButton \<Rightarrow> int \<Rightarrow> int \<Rightarrow> pp_InputEvent" where
  "mouse_event t b x y =
     \<lparr>GetType = t, GetModifiers = 0, GetPosition = (x, y),
      GetMovement = (0, 0), GetButton = b, GetDelta = (0, 0),
      GetTicks = (0, 0), GetScrollByPage = False, GetKeyCode = 0, GetCharacterText = []\<rparr>"

text \<open>The persistent part of the state: everything but the queue.\<close>

definition persistent :: "InputState \<Rightarrow> int \<times> int \<times> (MouseButton \<Rightarrow> bool) \<times> (uint32_t \<Rightarrow> bool)" where
  "persistent st = (g_MouseX st, g_MouseY st, g_MouseButton st, g_Keys st)"

section \<open>Shader program manager (the gles2 Shader source)\<close>

text \<open>
  \<open>GLuint\<close> is a 32-bit unsigned word. \<open>GLint\<close> and \<open>int\<close> values that are uniform
  locations, sizes and texture unit numbers are \<open>int\<close>: the code compares and copies them,
  and a unit number is at most the number of texture units. The per-unit counters are C++
  \<open>int\<close> values that the code increments and decrements: they are kept as \<open>int\<close> in the
  32-bit two's complement range, and \<open>int32\<close> wraps the result of every addition and
  subtraction on them, so that \<open>2147483647 + 1\<close> is \<open>-2147483648\<close>.
  A \<open>const GLfloat *\<close> is an address: the code only passes it on to the driver.
\<close>

type_synonym GLuint = "32 word"
type_synonym GLint = int
type_synonym GLenum = "32 word"
type_synonym GLfloat_ptr = nat

definition int32 :: "int \<Rightarrow> int" where
  "int32 x = (x + 2147483648) mod 4294967296 - 2147483648"

abbreviation (input) GL_INVALID_ENUM :: GLenum where "GL_INVALID_ENUM \<equiv> 0x0500"

text \<open>
  \<open>enum ShaderType\<close> is declared in Shader.h, which is not among the sources. The code
  names \<open>TYPE_VERTEX\<close> and \<open>TYPE_PIXEL\<close>; \<open>TYPE_MAX_ENUM\<close> stands for any other value,
  which reaches the \<open>default\<close> branch of \<open>compileCode\<close>. A \<open>std::map\<close> is a partial
  function; its iteration visits the keys in the order of \<open>shader_types\<close>.
\<close>

datatype ShaderType = TYPE_VERTEX | TYPE_PIXEL | TYPE_MAX_ENUM

type_synonym ShaderSources = "ShaderType \<rightharpoonup> string"

definition shader_types :: "ShaderType list" where
  "shader_types = [TYPE_VERTEX, TYPE_PIXEL, TYPE_MAX_ENUM]"

definition sources_list :: "ShaderSources \<Rightarrow> (ShaderType \<times> string) list" where
  "sources_list m = List.map_filter (\<lambda>t. map_option (Pair t) (m t)) shader_types"

text \<open>
  Every \<open>throw love::Exception\<close> of the source is a value of \<open>error\<close>.
  \<open>UndefinedBehaviour\<close> is not an exception: it marks a call on a Shader that is not
  alive, or an index outside a vector, where C++ gives no meaning to the program.
\<close>

datatype error =
    NoSourceCode
  | NoDefaultVertexCode
  | NoDefaultPixelCode
  | UnknownShaderType
  | ShadersNotSupported ShaderType
  | CannotCreateShaderObject ShaderType
  | CannotCompile ShaderType string
  | NoValidSourceCode
  | CannotCreateProgram
  | CannotLink string
  | CannotGetLocation string
  | InvalidVariableSize int
  | InvalidMatrixSize int
  | NoMoreTextureUnits
  | DefaultSourcesIncomplete
  | UndefinedBehaviour

text \<open>
  The OpenGL driver answers the queries of the code; what it answers is a parameter.
  \<open>glCreateShader\<close> and \<open>glCreateProgram\<close> give the object name handed out (0 on
  failure), \<open>glGetError\<close> the error flag read after a failed \<open>glCreateShader\<close>,
  \<open>compileLog\<close> and \<open>linkLog\<close> are \<open>None\<close> when the compile or link status is true and the
  info log otherwise, \<open>glGetUniformLocation\<close> the location of a name in a program (-1 when
  there is none).

  Modelled from the spec: \<open>getNumTextureUnits\<close> is \<open>Context::getNumTextureUnits\<close>, of the
  rendering context, which is not among the sources: "the manager queries the context for
  the number of available texture units".
\<close>

record Driver =
  getNumTextureUnits :: int
  glCreateShader :: "ShaderType \<Rightarrow> GLuint"
  glGetError :: GLenum
  compileLog :: "ShaderType \<Rightarrow> string \<Rightarrow> string option"
  glCreateProgram :: GLuint
  linkLog :: "GLuint list \<Rightarrow> string option"
  glGetUniformLocation :: "GLuint \<Rightarrow> string \<Rightarrow> GLint"

text \<open>The \<open>glUniform*\<close> calls that the code can make.\<close>

datatype GLcall =
    Uniform1fv GLint int GLfloat_ptr
  | Uniform2fv GLint int GLfloat_ptr
  | Uniform3fv GLint int GLfloat_ptr
  | Uniform4fv GLint int GLfloat_ptr
  | UniformMatrix2fv GLint int GLfloat_ptr
  | UniformMatrix3fv GLint int GLfloat_ptr
  | UniformMatrix4fv GLint int GLfloat_ptr
  | Uniform1i GLint GLint

text \<open>
  What the code changes in the rendering context: the program in use (\<open>glUseProgram\<close>),
  the active texture unit, the texture bound at each unit, and the \<open>glUniform*\<close> calls made
  so far, the latest last.
\<close>

record Context =
  usedProgram :: GLuint
  activeTextureUnit :: int
  textureUnits :: "int \<Rightarrow> GLuint"
  uniformCalls :: "GLcall list"

text \<open>
  Modelled from the spec: \<open>Context::bindTextureToUnit\<close> and
  \<open>Context::setActiveTextureUnit\<close> are not among the sources; the Shader "calls into the
  context to bind a texture to a unit and to select the active unit". Binding selects the
  unit and leaves it selected unless the caller asks to restore the previous one.
\<close>

definition setActiveTextureUnit :: "int \<Rightarrow> Context \<Rightarrow> Context" where
  "setActiveTextureUnit textureunit c = c\<lparr>activeTextureUnit := textureunit\<rparr>"

definition bindTextureToUnit :: "GLuint \<Rightarrow> int \<Rightarrow> bool \<Rightarrow> Context \<Rightarrow> Context" where
  "bindTextureToUnit texture textureunit restoreprev c =
     c\<lparr>textureUnits := (textureUnits c)(textureunit := texture),
       activeTextureUnit := (if restoreprev then activeTextureUnit c else textureunit)\<rparr>"

text \<open>A Shader object: its members, but for the constant \<open>vertexAttribNames\<close>.\<close>

record Shader =
  shaderSources :: ShaderSources
  program :: GLuint
  uniforms :: "string \<rightharpoonup> GLint"
  textureUnitPool :: "string \<rightharpoonup> GLint"
  activeTextureUnits :: "GLuint list"

text \<open>
  The process-wide state: the driver and the context, the static members of the class, and
  the Shader objects alive, each under its address (\<open>nextShader\<close> is the address of the next
  object constructed; a null pointer is \<open>None\<close>).
\<close>

record Graphics =
  driver :: Driver
  ctx :: Context
  currentShader :: "nat option"
  defaultShader :: "nat option"
  defaultSources :: ShaderSources
  maxTextureUnits :: nat
  textureCounters :: "int list"
  shaders :: "nat \<rightharpoonup> Shader"
  nextShader :: nat

definition initial :: "Driver \<Rightarrow> Graphics" where
  "initial drv =
     \<lparr>driver = drv,
      ctx = \<lparr>usedProgram = 0, activeTextureUnit = 0, textureUnits = (\<lambda>_. 0), uniformCalls = []\<rparr>,
      currentShader = None, defaultShader = None, defaultSources = Map.empty,
      maxTextureUnits = 0, textureCounters = [], shaders = Map.empty, nextShader = 0\<rparr>"

text \<open>
  A member function takes the address \<open>this\<close> and the state, and returns the exception or
  the value together with the state it leaves behind.
\<close>

type_synonym 'a result = "(error + 'a) \<times> Graphics"

definition glUseProgram :: "GLuint \<Rightarrow> Graphics \<Rightarrow> Graphics" where
  "glUseProgram p g = g\<lparr>ctx := (ctx g)\<lparr>usedProgram := p\<rparr>\<rparr>"

definition glUniform :: "GLcall \<Rightarrow> Graphics \<Rightarrow> Graphics" where
  "glUniform c g = g\<lparr>ctx := (ctx g)\<lparr>uniformCalls := uniformCalls (ctx g) @ [c]\<rparr>\<rparr>"

text \<open>
  \<open>std::find (first, last, v)\<close> as the distance from \<open>first\<close> to the iterator returned:
  the index of the first element equal to \<open>v\<close>, the length when there is none.
\<close>

fun std_find :: "'a \<Rightarrow> 'a list \<Rightarrow> nat" where
  "std_find v [] = 0"
| "std_find v (x # xs) = (if x = v then 0 else Suc (std_find v xs))"

text \<open>
  The loop of \<open>attach\<close> that binds again every texture the shader has recorded, unit
  \<open>i + 1\<close> for index \<open>i\<close>.
\<close>

definition rebind_textures :: "GLuint list \<Rightarrow> Context \<Rightarrow> Context" where
  "rebind_textures units c =
     foldl (\<lambda>c i. if units ! i > 0 then bindTextureToUnit (units ! i) (int i + 1) False c else c)
       c [0..<length units]"

definition attach :: "nat \<Rightarrow> bool \<Rightarrow> Graphics \<Rightarrow> unit result" where
  "attach this temporary g =
     (case shaders g this of
        None \<Rightarrow> (Inl UndefinedBehaviour, g)
      | Some sh \<Rightarrow>
          (let g1 = (if currentShader g \<noteq> Some this then glUseProgram (program sh) g else g);
               g2 = g1\<lparr>currentShader := Some this\<rparr>
           in if \<not> temporary
              then (Inr (), g2\<lparr>ctx := setActiveTextureUnit 0
                                    (rebind_textures (activeTextureUnits sh) (ctx g2))\<rparr>)
              else (Inr (), g2)))"

text \<open>\<open>attach ()\<close> without an argument is \<open>attach (false)\<close>, the default of Shader.h.\<close>

definition detach :: "Graphics \<Rightarrow> unit result" where
  "detach g =
     (case defaultShader g of
        Some d \<Rightarrow> attach d False g
      | None \<Rightarrow> (Inr (), (glUseProgram 0 g)\<lparr>currentShader := None\<rparr>))"

text \<open>
  \<open>TemporaryAttacher attacher (this)\<close> at the head of a function body: the constructor
  runs, then the body, then the destructor, also when the body throws.
\<close>

definition TemporaryAttacher :: "nat \<Rightarrow> (Graphics \<Rightarrow> 'a result) \<Rightarrow> Graphics \<Rightarrow> 'a result" where
  "TemporaryAttacher curShader body g =
     (let prevShader = currentShader g
      in case attach curShader True g of
           (Inl e, g1) \<Rightarrow> (Inl e, g1)
         | (Inr _, g1) \<Rightarrow>
             (case body g1 of
                (r, g2) \<Rightarrow>
                  (case (case prevShader of Some p \<Rightarrow> attach p False g2 | None \<Rightarrow> detach g2) of
                     (Inl e, g3) \<Rightarrow> (Inl e, g3)
                   | (Inr _, g3) \<Rightarrow> (r, g3))))"

definition setUniforms :: "nat \<Rightarrow> (string \<rightharpoonup> GLint) \<Rightarrow> Graphics \<Rightarrow> Graphics" where
  "setUniforms this u g =
     (case shaders g this of
        None \<Rightarrow> g
      | Some sh \<Rightarrow> g\<lparr>shaders := (shaders g)(this \<mapsto> sh\<lparr>uniforms := u\<rparr>)\<rparr>)"

definition getUniformLocation :: "nat \<Rightarrow> string \<Rightarrow> bool \<Rightarrow> Graphics \<Rightarrow> GLint result" where
  "getUniformLocation this name unsafe g =
     (case shaders g this of
        None \<Rightarrow> (Inl UndefinedBehaviour, g)
      | Some sh \<Rightarrow>
          (let it = uniforms sh name
           in if it \<noteq> None \<and> (the it \<noteq> -1 \<or> unsafe) then (Inr (the it), g)
              else (let location = glGetUniformLocation (driver g) (program sh) name
                    in if location = -1 \<and> \<not> unsafe then (Inl (CannotGetLocation name), g)
                       else (Inr location,
                             setUniforms this ((uniforms sh)(name \<mapsto> location)) g))))"

definition hasUniform :: "nat \<Rightarrow> string \<Rightarrow> Graphics \<Rightarrow> bool result" where
  "hasUniform this name g =
     (case getUniformLocation this name True g of
        (Inl e, g1) \<Rightarrow> (Inl e, g1)
      | (Inr location, g1) \<Rightarrow> (Inr (location \<ge> 0), g1))"

text \<open>\<open>checkSetUniformError\<close> is compiled out (\<open>#if 0\<close>): it does nothing.\<close>

text \<open>
  The bodies of \<open>sendFloat\<close> and \<open>sendMatrix\<close>, after the constructor and before the
  destructor of the \<open>TemporaryAttacher\<close>.
\<close>

definition sendFloat_body :: "nat \<Rightarrow> string \<Rightarrow> int \<Rightarrow> GLfloat_ptr \<Rightarrow> int \<Rightarrow> Graphics \<Rightarrow> unit result" where
  "sendFloat_body this name vsize vec count g =
     (case getUniformLocation this name False g of
         (Inl e, g1) \<Rightarrow> (Inl e, g1)
       | (Inr location, g1) \<Rightarrow>
           if vsize < 1 \<or> vsize > 4 then (Inl (InvalidVariableSize vsize), g1)
           else if vsize = 4 then (Inr (), glUniform (Uniform4fv location count vec) g1)
           else if vsize = 3 then (Inr (), glUniform (Uniform3fv location count vec) g1)
           else if vsize = 2 then (Inr (), glUniform (Uniform2fv location count vec) g1)
           else (Inr (), glUniform (Uniform1fv location count vec) g1))"

definition sendFloat :: "nat \<Rightarrow> string \<Rightarrow> int \<Rightarrow> GLfloat_ptr \<Rightarrow> int \<Rightarrow> Graphics \<Rightarrow> unit result" where
  "sendFloat this name vsize vec count g =
     TemporaryAttacher this (sendFloat_body this name vsize vec count) g"

definition sendMatrix_body :: "nat \<Rightarrow> string \<Rightarrow> int \<Rightarrow> GLfloat_ptr \<Rightarrow> int \<Rightarrow> Graphics \<Rightarrow> unit result" where
  "sendMatrix_body this name msize m count g =
     (case getUniformLocation this name False g of
         (Inl e, g1) \<Rightarrow> (Inl e, g1)
       | (Inr location, g1) \<Rightarrow>
           if msize < 2 \<or> msize > 4 then (Inl (InvalidMatrixSize msize), g1)
           else if msize = 4 then (Inr (), glUniform (UniformMatrix4fv location count m) g1)
           else if msize = 3 then (Inr (), glUniform (UniformMatrix3fv location count m) g1)
           else (Inr (), glUniform (UniformMatrix2fv location count m) g1))"

definition sendMatrix :: "nat \<Rightarrow> string \<Rightarrow> int \<Rightarrow> GLfloat_ptr \<Rightarrow> int \<Rightarrow> Graphics \<Rightarrow> unit result" where
  "sendMatrix this name msize m count g =
     TemporaryAttacher this (sendMatrix_body this name msize m count) g"

definition setTextureUnitPool :: "nat \<Rightarrow> string \<Rightarrow> GLint \<Rightarrow> Graphics \<Rightarrow> Graphics" where
  "setTextureUnitPool this name textureunit g =
     (case shaders g this of
        None \<Rightarrow> g
      | Some sh \<Rightarrow>
          g\<lparr>shaders := (shaders g)(this \<mapsto>
               sh\<lparr>textureUnitPool := (textureUnitPool sh)(name \<mapsto> textureunit)\<rparr>)\<rparr>)"

definition getTextureUnit :: "nat \<Rightarrow> string \<Rightarrow> Graphics \<Rightarrow> int result" where
  "getTextureUnit this name g =
     (case shaders g this of
        None \<Rightarrow> (Inl UndefinedBehaviour, g)
      | Some sh \<Rightarrow>
          (case textureUnitPool sh name of
             Some textureunit \<Rightarrow> (Inr textureunit, g)
           | None \<Rightarrow>
               (let nextfreeunit = std_find 0 (textureCounters g)
                in if nextfreeunit \<noteq> length (textureCounters g)
                   then (Inr (int nextfreeunit + 1),
                         setTextureUnitPool this name (int nextfreeunit + 1) g)
                   else (let nexttexunit = std_find 0 (activeTextureUnits sh)
                         in if nexttexunit = length (activeTextureUnits sh)
                            then (Inl NoMoreTextureUnits, g)
                            else (Inr (int nexttexunit + 1),
                                  setTextureUnitPool this name (int nexttexunit + 1) g)))))"

text \<open>
  The last two statements of \<open>sendTexture\<close>, on \<open>activeTextureUnits [textureunit - 1]\<close>
  and \<open>textureCounters [textureunit - 1]\<close>. An index outside the vector it is used on is
  undefined behaviour.
\<close>

definition record_texture :: "nat \<Rightarrow> int \<Rightarrow> GLuint \<Rightarrow> Graphics \<Rightarrow> unit result" where
  "record_texture this textureunit texture g =
     (case shaders g this of
        None \<Rightarrow> (Inl UndefinedBehaviour, g)
      | Some sh \<Rightarrow>
          (let i = nat (textureunit - 1)
           in if textureunit < 1 \<or> length (activeTextureUnits sh) \<le> i
              then (Inl UndefinedBehaviour, g)
              else if activeTextureUnits sh ! i = 0 \<and> length (textureCounters g) \<le> i
              then (Inl UndefinedBehaviour, g)
              else (let g1 = (if activeTextureUnits sh ! i = 0
                              then g\<lparr>textureCounters :=
                                       (textureCounters g)[i := int32 (textureCounters g ! i + 1)]\<rparr>
                              else g)
                    in (Inr (), g1\<lparr>shaders := (shaders g1)(this \<mapsto>
                          sh\<lparr>activeTextureUnits := (activeTextureUnits sh)[i := texture]\<rparr>)\<rparr>))))"

definition sendTexture :: "nat \<Rightarrow> string \<Rightarrow> GLuint \<Rightarrow> Graphics \<Rightarrow> unit result" where
  "sendTexture this name texture g =
     TemporaryAttacher this (\<lambda>g.
       case getUniformLocation this name False g of
         (Inl e, g1) \<Rightarrow> (Inl e, g1)
       | (Inr location, g1) \<Rightarrow>
           (case getTextureUnit this name g1 of
              (Inl e, g2) \<Rightarrow> (Inl e, g2)
            | (Inr textureunit, g2) \<Rightarrow>
                (let g3 = g2\<lparr>ctx := bindTextureToUnit texture textureunit False (ctx g2)\<rparr>;
                     g4 = glUniform (Uniform1i location textureunit) g3;
                     g5 = g4\<lparr>ctx := setActiveTextureUnit 0 (ctx g4)\<rparr>
                 in record_texture this textureunit texture g5))) g"

text \<open>
  \<open>sendImage\<close> and \<open>sendCanvas\<close> pass the texture name of the image or canvas, which is
  the argument here.
\<close>

definition sendImage :: "nat \<Rightarrow> string \<Rightarrow> GLuint \<Rightarrow> Graphics \<Rightarrow> unit result" where
  "sendImage this name textureName g = sendTexture this name textureName g"

definition sendCanvas :: "nat \<Rightarrow> string \<Rightarrow> GLuint \<Rightarrow> Graphics \<Rightarrow> unit result" where
  "sendCanvas this name textureName g = sendTexture this name textureName g"

text \<open>
  \<open>compileCode\<close>. The loop that clears the pending errors ends, since each
  \<open>glGetError\<close> clears one of finitely many flags; the shader objects are not part of the
  state.
\<close>

definition compileCode :: "Driver \<Rightarrow> ShaderType \<Rightarrow> string \<Rightarrow> error + GLuint" where
  "compileCode drv t code =
     (if t \<noteq> TYPE_VERTEX \<and> t \<noteq> TYPE_PIXEL then Inl UnknownShaderType
      else (let shaderid = glCreateShader drv t
            in if shaderid = 0
               then (if glGetError drv = GL_INVALID_ENUM then Inl (ShadersNotSupported t)
                     else Inl (CannotCreateShaderObject t))
               else (case compileLog drv t code of
                       Some errorlog \<Rightarrow> Inl (CannotCompile t errorlog)
                     | None \<Rightarrow> Inr shaderid)))"

text \<open>The loop of \<open>loadVolatile\<close> over the sources; the first exception ends it.\<close>

fun compile_sources :: "Driver \<Rightarrow> (ShaderType \<times> string) list \<Rightarrow> error + GLuint list" where
  "compile_sources drv [] = Inr []"
| "compile_sources drv ((t, code) # rest) =
     (case compileCode drv t code of
        Inl e \<Rightarrow> Inl e
      | Inr shaderid \<Rightarrow>
          (case compile_sources drv rest of
             Inl e \<Rightarrow> Inl e
           | Inr shaderids \<Rightarrow> Inr (shaderid # shaderids)))"

definition setProgram :: "nat \<Rightarrow> GLuint \<Rightarrow> Graphics \<Rightarrow> Graphics" where
  "setProgram this p g =
     (case shaders g this of
        None \<Rightarrow> g
      | Some sh \<Rightarrow> g\<lparr>shaders := (shaders g)(this \<mapsto> sh\<lparr>program := p\<rparr>)\<rparr>)"

text \<open>
  \<open>createProgram\<close>. \<open>bindVertexAttribs\<close> only names attribute locations in the new
  program, which is not part of the state.
\<close>

definition createProgram :: "nat \<Rightarrow> GLuint list \<Rightarrow> Graphics \<Rightarrow> unit result" where
  "createProgram this shaderids g =
     (let g1 = setProgram this (glCreateProgram (driver g)) g
      in if glCreateProgram (driver g) = 0 then (Inl CannotCreateProgram, g1)
         else (case linkLog (driver g) shaderids of
                 Some warnings \<Rightarrow> (Inl (CannotLink warnings), g1)
               | None \<Rightarrow> (Inr (), g1)))"

definition clearActiveTextureUnits :: "nat \<Rightarrow> Graphics \<Rightarrow> Graphics" where
  "clearActiveTextureUnits this g =
     (case shaders g this of
        None \<Rightarrow> g
      | Some sh \<Rightarrow>
          g\<lparr>shaders := (shaders g)(this \<mapsto>
               sh\<lparr>activeTextureUnits := replicate (maxTextureUnits g) 0\<rparr>)\<rparr>)"

definition loadVolatile :: "nat \<Rightarrow> Graphics \<Rightarrow> bool result" where
  "loadVolatile this g =
     (case shaders g this of
        None \<Rightarrow> (Inl UndefinedBehaviour, g)
      | Some sh \<Rightarrow>
          (let g1 = clearActiveTextureUnits this g
           in case compile_sources (driver g1) (sources_list (shaderSources sh)) of
                Inl e \<Rightarrow> (Inl e, g1)
              | Inr shaderids \<Rightarrow>
                  if shaderids = [] then (Inl NoValidSourceCode, g1)
                  else (case createProgram this shaderids g1 of
                          (Inl e, g2) \<Rightarrow> (Inl e, g2)
                        | (Inr _, g2) \<Rightarrow>
                            if currentShader g2 = Some this
                            then (case attach this False (g2\<lparr>currentShader := None\<rparr>) of
                                    (Inl e, g3) \<Rightarrow> (Inl e, g3)
                                  | (Inr _, g3) \<Rightarrow> (Inr True, g3))
                            else (Inr True, g2))))"

text \<open>
  The loop of \<open>unloadVolatile\<close> over the indices of \<open>activeTextureUnits\<close>, on the vector
  of counters.
\<close>

definition decrement_counters :: "GLuint list \<Rightarrow> int list \<Rightarrow> int list" where
  "decrement_counters units counters =
     foldl (\<lambda>cs i. if units ! i > 0 then cs[i := max (int32 (cs ! i - 1)) 0] else cs)
       counters [0..<length units]"

definition unloadVolatile :: "nat \<Rightarrow> Graphics \<Rightarrow> unit result" where
  "unloadVolatile this g =
     (case shaders g this of
        None \<Rightarrow> (Inl UndefinedBehaviour, g)
      | Some sh \<Rightarrow>
          (let g1 = (if currentShader g = Some this then glUseProgram 0 g else g)
           in if list_ex (\<lambda>i. activeTextureUnits sh ! i > 0 \<and> length (textureCounters g1) \<le> i)
                   [0..<length (activeTextureUnits sh)]
              then (Inl UndefinedBehaviour, g1\<lparr>shaders := (shaders g1)(this \<mapsto> sh\<lparr>program := 0\<rparr>)\<rparr>)
              else (Inr (),
                    g1\<lparr>textureCounters :=
                         decrement_counters (activeTextureUnits sh) (textureCounters g1),
                       shaders := (shaders g1)(this \<mapsto>
                         sh\<lparr>program := 0,
                            activeTextureUnits := replicate (maxTextureUnits g1) 0,
                            uniforms := Map.empty\<rparr>)\<rparr>)))"

text \<open>
  \<open>checkCodeCompleteness\<close>, on the sources of the shader under construction and the
  default sources: the sources completed, or the exception.
\<close>

definition checkCodeCompleteness :: "ShaderSources \<Rightarrow> ShaderSources \<Rightarrow> error + ShaderSources" where
  "checkCodeCompleteness defaults sources =
     (case (if sources TYPE_VERTEX = None
            then (case defaults TYPE_VERTEX of
                    Some code \<Rightarrow> Inr (sources(TYPE_VERTEX \<mapsto> code))
                  | None \<Rightarrow> Inl NoDefaultVertexCode)
            else Inr sources) of
        Inl e \<Rightarrow> Inl e
      | Inr sources1 \<Rightarrow>
          (if sources1 TYPE_PIXEL = None
           then (case defaults TYPE_PIXEL of
                   Some code \<Rightarrow> Inr (sources1(TYPE_PIXEL \<mapsto> code))
                 | None \<Rightarrow> Inl NoDefaultPixelCode)
           else Inr sources1))"

text \<open>
  The constructor: the address of the new Shader, or the exception; after an exception
  there is no object, but the static members keep what the constructor wrote.
\<close>

definition Shader_new :: "ShaderSources \<Rightarrow> Graphics \<Rightarrow> nat result" where
  "Shader_new sources g =
     (if sources_list sources = [] then (Inl NoSourceCode, g)
      else (let g1 = g\<lparr>maxTextureUnits := nat (max (getNumTextureUnits (driver g) - 1) 0)\<rparr>;
                g2 = (if length (textureCounters g1) < maxTextureUnits g1
                      then g1\<lparr>textureCounters := textureCounters g1 @
                              replicate (maxTextureUnits g1 - length (textureCounters g1)) 0\<rparr>
                      else g1)
            in case checkCodeCompleteness (defaultSources g2) sources of
                 Inl e \<Rightarrow> (Inl e, g2)
               | Inr sources1 \<Rightarrow>
                   (let this = nextShader g2;
                        g3 = g2\<lparr>shaders := (shaders g2)(this \<mapsto>
                                  \<lparr>shaderSources = sources1, program = 0, uniforms = Map.empty,
                                   textureUnitPool = Map.empty, activeTextureUnits = []\<rparr>),
                                nextShader := Suc this\<rparr>
                    in case loadVolatile this g3 of
                         (Inl e, g4) \<Rightarrow> (Inl e, g4\<lparr>shaders := (shaders g4)(this := None)\<rparr>)
                       | (Inr _, g4) \<Rightarrow> (Inr this, g4))))"

text \<open>The destructor; the object is gone afterwards.\<close>

definition Shader_delete :: "nat \<Rightarrow> Graphics \<Rightarrow> unit result" where
  "Shader_delete this g =
     (case (if currentShader g = Some this then detach g else (Inr (), g)) of
        (Inl e, g1) \<Rightarrow> (Inl e, g1)
      | (Inr _, g1) \<Rightarrow>
          (case unloadVolatile this g1 of
             (Inl e, g2) \<Rightarrow> (Inl e, g2)
           | (Inr _, g2) \<Rightarrow> (Inr (), g2\<lparr>shaders := (shaders g2)(this := None)\<rparr>)))"

definition setDefaultSources :: "ShaderSources \<Rightarrow> Graphics \<Rightarrow> unit result" where
  "setDefaultSources sources g =
     (if sources TYPE_VERTEX = None \<or> sources TYPE_PIXEL = None
      then (Inl DefaultSourcesIncomplete, g)
      else (Inr (), g\<lparr>defaultSources := sources\<rparr>))"

text \<open>
  The calls that the rest of the program can make on the class, and what else can change the
  state: the assignment of the static \<open>defaultShader\<close>, and the driver answering
  differently from now on (the number of texture units of the context stays what it is).
\<close>

datatype call =
    New ShaderSources
  | Delete nat
  | LoadVolatile nat
  | UnloadVolatile nat
  | Attach nat bool
  | Detach
  | GetUniformLocation nat string bool
  | HasUniform nat string
  | SendFloat nat string int GLfloat_ptr int
  | SendMatrix nat string int GLfloat_ptr int
  | SendTexture nat string GLuint
  | GetTextureUnit nat string
  | SetDefaultSources ShaderSources
  | SetDefaultShader "nat option"
  | DriverAnswers Driver

text \<open>The state that a call leaves behind, whether it returns or throws.\<close>

fun exec :: "call \<Rightarrow> Graphics \<Rightarrow> Graphics" where
  "exec (New sources) g = snd (Shader_new sources g)"
| "exec (Delete this) g = snd (Shader_delete this g)"
| "exec (LoadVolatile this) g = snd (loadVolatile this g)"
| "exec (UnloadVolatile this) g = snd (unloadVolatile this g)"
| "exec (Attach this temporary) g = snd (attach this temporary g)"
| "exec Detach g = snd (detach g)"
| "exec (GetUniformLocation this name unsafe) g = snd (getUniformLocation this name unsafe g)"
| "exec (HasUniform this name) g = snd (hasUniform this name g)"
| "exec (SendFloat this name vsize vec count) g = snd (sendFloat this name vsize vec count g)"
| "exec (SendMatrix this name msize m count) g = snd (sendMatrix this name msize m count g)"
| "exec (SendTexture this name texture) g = snd (sendTexture this name texture g)"
| "exec (GetTextureUnit this name) g = snd (getTextureUnit this name g)"
| "exec (SetDefaultSources sources) g = snd (setDefaultSources sources g)"
| "exec (SetDefaultShader d) g = g\<lparr>defaultShader := d\<rparr>"
| "exec (DriverAnswers drv) g =
     (if getNumTextureUnits drv = getNumTextureUnits (driver g) then g\<lparr>driver := drv\<rparr> else g)"

definition run :: "call list \<Rightarrow> Graphics \<Rightarrow> Graphics" where
  "run cs g = foldl (\<lambda>g c. exec c g) g cs"

inductive reachable :: "Graphics \<Rightarrow> bool" where
  start: "reachable (initial drv)"
| step: "reachable g \<Longrightarrow> reachable (exec c g)"

text \<open>
  No counter has reached the largest \<open>int\<close>, 2147483647; and the states reached by calls
  after each of which this is so, so that no increment has wrapped around on the way.
\<close>

definition unsaturated :: "Graphics \<Rightarrow> bool" where
  "unsaturated g \<longleftrightarrow> (\<forall>c \<in> set (textureCounters g). c < 2147483647)"

inductive reachable_below :: "Graphics \<Rightarrow> bool" where
  start_below: "reachable_below (initial drv)"
| step_below: "reachable_below g \<Longrightarrow> unsaturated (exec c g) \<Longrightarrow> reachable_below (exec c g)"

text \<open>
  The invariants. \<open>users g i\<close> are the shaders alive that record a texture (a handle other
  than 0) at index \<open>i\<close> of their \<open>activeTextureUnits\<close>. \<open>sized\<close> holds in every reachable
  state; \<open>counted\<close>, that a counter is at least the number of its users, holds as long as
  no increment has wrapped around: \<open>wellformed True\<close> is the invariant of the states of
  \<open>reachable_below\<close>, \<open>wellformed False\<close> that of all reachable states.
\<close>

definition users :: "Graphics \<Rightarrow> nat \<Rightarrow> nat set" where
  "users g i =
     {this. \<exists>sh. shaders g this = Some sh \<and> i < length (activeTextureUnits sh)
        \<and> activeTextureUnits sh ! i \<noteq> 0}"

definition unit_limit :: "Driver \<Rightarrow> nat" where
  "unit_limit drv = nat (max (getNumTextureUnits drv - 1) 0)"

definition sized :: "Graphics \<Rightarrow> bool" where
  "sized g \<longleftrightarrow>
     length (textureCounters g) = maxTextureUnits g
   \<and> (\<forall>c \<in> set (textureCounters g). - 2147483648 \<le> c \<and> c < 2147483648)
   \<and> (maxTextureUnits g = unit_limit (driver g)
        \<or> (maxTextureUnits g = 0 \<and> shaders g = Map.empty))
   \<and> (\<forall>this sh. shaders g this = Some sh \<longrightarrow>
         this < nextShader g
       \<and> length (activeTextureUnits sh) = maxTextureUnits g
       \<and> (\<forall>name u. textureUnitPool sh name = Some u \<longrightarrow> 1 \<le> u \<and> u \<le> int (maxTextureUnits g)))"

definition counted :: "Graphics \<Rightarrow> bool" where
  "counted g \<longleftrightarrow>
     (\<forall>i < length (textureCounters g). int (card (users g i)) \<le> textureCounters g ! i)"

definition wellformed :: "bool \<Rightarrow> Graphics \<Rightarrow> bool" where
  "wellformed b g \<longleftrightarrow> sized g \<and> (b \<longrightarrow> counted g)"

text \<open>
  Two states that differ at most in the context and in \<open>currentShader\<close>: what \<open>attach\<close>
  and \<open>detach\<close> change.
\<close>

definition same_books :: "Graphics \<Rightarrow> Graphics \<Rightarrow> bool" where
  "same_books g g' \<longleftrightarrow>
     driver g' = driver g \<and> defaultShader g' = defaultShader g
   \<and> defaultSources g' = defaultSources g \<and> maxTextureUnits g' = maxTextureUnits g
   \<and> textureCounters g' = textureCounters g \<and> shaders g' = shaders g
   \<and> nextShader g' = nextShader g"

text \<open>
  Shader \<open>sh\<close> records a texture at index \<open>i\<close>.
\<close>

definition holds :: "Shader \<Rightarrow> nat \<Rightarrow> bool" where
  "holds sh i \<longleftrightarrow> i < length (activeTextureUnits sh) \<and> activeTextureUnits sh ! i \<noteq> 0"

text \<open>
  From \<open>g\<close> to \<open>g'\<close> no address is reused and no shader loses an entry of its
  \<open>textureUnitPool\<close>: a shader alive in \<open>g'\<close> under an address handed out before \<open>g\<close> was
  alive in \<open>g\<close>, with a pool that its pool in \<open>g'\<close> extends.
\<close>

definition kept :: "Graphics \<Rightarrow> Graphics \<Rightarrow> bool" where
  "kept g g' \<longleftrightarrow>
     nextShader g \<le> nextShader g'
   \<and> (\<forall>this sh'. shaders g' this = Some sh' \<longrightarrow> this < nextShader g \<longrightarrow>
         (\<exists>sh. shaders g this = Some sh \<and> textureUnitPool sh \<subseteq>\<^sub>m textureUnitPool sh'))"

text \<open>
  Concrete states, used to instantiate the theorems: a driver with three texture units (two
  for shaders) that compiles every source but \<open>''bad''\<close> and knows every uniform but
  \<open>''missing''\<close>, and the states after one and after two constructor calls.
\<close>

definition example_driver :: Driver where
  "example_driver =
     \<lparr>getNumTextureUnits = 3,
      glCreateShader = (\<lambda>t. if t = TYPE_VERTEX then 1 else 2),
      glGetError = 0,
      compileLog = (\<lambda>t code. if code = ''bad'' then Some ''syntax error'' else None),
      glCreateProgram = 3,
      linkLog = (\<lambda>shaderids. None),
      glGetUniformLocation = (\<lambda>p name. if name = ''missing'' then -1 else 5)\<rparr>"

definition example_sources :: ShaderSources where
  "example_sources = [TYPE_VERTEX \<mapsto> ''v'', TYPE_PIXEL \<mapsto> ''p'']"

definition example_shader :: Shader where
  "example_shader =
     \<lparr>shaderSources = example_sources, program = 3, uniforms = Map.empty,
      textureUnitPool = Map.empty, activeTextureUnits = [0, 0]\<rparr>"

definition one_shader :: Graphics where
  "one_shader =
     \<lparr>driver = example_driver,
      ctx = \<lparr>usedProgram = 0, activeTextureUnit = 0, textureUnits = (\<lambda>_. 0), uniformCalls = []\<rparr>,
      currentShader = None, defaultShader = None, defaultSources = Map.empty,
      maxTextureUnits = 2, textureCounters = [0, 0],
      shaders = [0 \<mapsto> example_shader], nextShader = 1\<rparr>"

definition two_shaders :: Graphics where
  "two_shaders =
     \<lparr>driver = example_driver,
      ctx = \<lparr>usedProgram = 0, activeTextureUnit = 0, textureUnits = (\<lambda>_. 0), uniformCalls = []\<rparr>,
      currentShader = None, defaultShader = None, defaultSources = Map.empty,
      maxTextureUnits = 2, textureCounters = [0, 0],
      shaders = [0 \<mapsto> example_shader, 1 \<mapsto> example_shader], nextShader = 2\<rparr>"

text \<open>
  The first shader after it has sent texture 7 to \<open>''texA''\<close>, and the state then.
\<close>

definition bound_shader :: Shader where
  "bound_shader =
     \<lparr>shaderSources = example_sources, program = 3, uniforms = [''texA'' \<mapsto> 5],
      textureUnitPool = [''texA'' \<mapsto> 1], activeTextureUnits = [7, 0]\<rparr>"

definition texture_sent :: Graphics where
  "texture_sent =
     \<lparr>driver = example_driver,
      ctx = \<lparr>usedProgram = 0, activeTextureUnit = 0, textureUnits = (\<lambda>_. 0)(1 := 7),
             uniformCalls = [Uniform1i 5 1]\<rparr>,
      currentShader = None, defaultShader = None, defaultSources = Map.empty,
      maxTextureUnits = 2, textureCounters = [1, 0],
      shaders = [0 \<mapsto> bound_shader, 1 \<mapsto> example_shader], nextShader = 2\<rparr>"



text \<open>
  The state with one shader, attached.
\<close>

definition attached_shader :: Graphics where
  "attached_shader = one_shader\<lparr>ctx := (ctx one_shader)\<lparr>usedProgram := 3\<rparr>, currentShader := Some 0\<rparr>"

text \<open>
  Sources with a vertex source only, and the state after default sources were registered.
\<close>

definition vertex_only :: "string \<Rightarrow> ShaderSources" where
  "vertex_only v = [TYPE_VERTEX \<mapsto> v]"

definition defaults_registered :: Graphics where
  "defaults_registered = snd (setDefaultSources example_sources (initial example_driver))"

text \<open>
  The state after \<open>n\<close> calls \<open>sendTexture (''tex'', 0)\<close> on the only shader, for \<open>n\<close> from 1
  to 2147483647.
\<close>

definition empty_sent :: "int \<Rightarrow> Graphics" where
  "empty_sent n =
     \<lparr>driver = example_driver,
      ctx = \<lparr>usedProgram = 0, activeTextureUnit = 0, textureUnits = (\<lambda>_. 0),
             uniformCalls = replicate (nat n) (Uniform1i 5 1)\<rparr>,
      currentShader = None, defaultShader = None, defaultSources = Map.empty,
      maxTextureUnits = 2, textureCounters = [n, 0],
      shaders = [0 \<mapsto> example_shader\<lparr>uniforms := [''tex'' \<mapsto> 5],
                                       textureUnitPool := [''tex'' \<mapsto> 1]\<rparr>],
      nextShader = 1\<rparr>"

section \<open>Properties of the input event bridge\<close>

lemma queue_EnqueueEvent:
  "g_InputEventQueue (EnqueueEvent K ev st) = g_InputEventQueue st @ [ConvertEvent ev]"
  by (simp add: EnqueueEvent_def UpdateInputState_def Let_def
      split: EventUnion.split MouseEventType.split KeyEventType.split)

lemma queue_Enqueue_all:
  "g_InputEventQueue (foldl (\<lambda>s e. EnqueueEvent K e s) st evs)
     = g_InputEventQueue st @ map ConvertEvent evs"
  by (induction evs arbitrary: st) (simp_all add: queue_EnqueueEvent)

lemma DequeueEvent_times_queue:
  "g_InputEventQueue st = q \<Longrightarrow>
   DequeueEvent_times (length q + k) st
     = (map Some q @ replicate k None, st\<lparr>g_InputEventQueue := []\<rparr>)"
proof (induction q arbitrary: st)
  case Nil
  then have "DequeueEvent_times k st = (replicate k None, st)"
    by (induction k) (simp_all add: DequeueEvent_def)
  with Nil show ?case by simp
next
  case (Cons e q)
  let ?st1 = "st\<lparr>g_InputEventQueue := q\<rparr>"
  have "DequeueEvent st = (Some e, ?st1)"
    using Cons.prems by (simp add: DequeueEvent_def)
  moreover have "DequeueEvent_times (length q + k) ?st1
      = (map Some q @ replicate k None, ?st1\<lparr>g_InputEventQueue := []\<rparr>)"
    by (rule Cons.IH) simp
  ultimately show ?case by simp
qed

text \<open>
  C5. After any sequence of \<open>EnqueueEvent\<close> calls the queue holds the converted events in
  the order of the calls, behind what it held before. \<open>DequeueAllEvents\<close> returns the
  whole queue in that order and leaves it empty. \<open>DequeueEvent\<close> reports no event exactly
  when the queue is empty, and successive calls return the queued events one at a time,
  oldest first, then no event, leaving the queue empty.
\<close>

theorem queue_fifo:
  "g_InputEventQueue (foldl (\<lambda>s e. EnqueueEvent K e s) st evs)
     = g_InputEventQueue st @ map ConvertEvent evs
   \<and> DequeueAllEvents st = (g_InputEventQueue st, st\<lparr>g_InputEventQueue := []\<rparr>)
   \<and> (fst (DequeueEvent st) = None) = (g_InputEventQueue st = [])
   \<and> DequeueEvent_times (length (g_InputEventQueue st) + k) st
       = (map Some (g_InputEventQueue st) @ replicate k None, st\<lparr>g_InputEventQueue := []\<rparr>)"
proof -
  have "(fst (DequeueEvent st) = None) = (g_InputEventQueue st = [])"
    by (simp add: DequeueEvent_def split: list.split)
  then show ?thesis
    by (simp add: queue_Enqueue_all DequeueAllEvents_def DequeueEvent_times_queue)
qed

lemma enqueued_append:
  "enqueued (cs @ [c]) = enqueued cs @ (case c of Enqueue ev \<Rightarrow> [ConvertEvent ev] | _ \<Rightarrow> [])"
  by (induction cs rule: enqueued.induct) (simp_all split: InputCall.split)

lemma most_recent_snoc:
  "most_recent P (evs @ [e]) = (if P e then Some e else most_recent P evs)"
  by (simp add: most_recent_def)

lemma IsKeyPressed_update:
  "code < K \<Longrightarrow>
   IsKeyPressed K (UpdateInputState K e st) code
     = (if key_down_up code e then is_down e else IsKeyPressed K st code)"
  by (auto simp: IsKeyPressed_def UpdateInputState_def key_down_up_def is_down_def Let_def
      split: EventUnion.split MouseEventType.split KeyEventType.split)

lemma IsMouseButtonPressed_update:
  "MOUSE_NONE < b \<Longrightarrow> b < MOUSE_BUTTON_MAX \<Longrightarrow>
   IsMouseButtonPressed (UpdateInputState K e st) b
     = (if button_down_up b e then is_down e else IsMouseButtonPressed st b)"
  by (auto simp: IsMouseButtonPressed_def UpdateInputState_def button_down_up_def is_down_def Let_def
      split: EventUnion.split MouseEventType.split KeyEventType.split)

lemma mouse_position_update:
  "(GetMouseX (UpdateInputState K e st), GetMouseY (UpdateInputState K e st))
     = (if is_mouse e then position e else (GetMouseX st, GetMouseY st))"
  by (auto simp: GetMouseX_def GetMouseY_def UpdateInputState_def is_mouse_def position_def Let_def
      split: EventUnion.split MouseEventType.split KeyEventType.split)

lemma queries_persistent:
  "IsKeyPressed K st code = (if code \<ge> K then False else (snd (snd (snd (persistent st)))) code)"
  "IsMouseButtonPressed st b = (if b \<le> MOUSE_NONE \<or> b \<ge> MOUSE_BUTTON_MAX then False else fst (snd (snd (persistent st))) b)"
  "GetMouseX st = fst (persistent st)"
  "GetMouseY st = fst (snd (persistent st))"
  by (simp_all add: persistent_def IsKeyPressed_def IsMouseButtonPressed_def GetMouseX_def GetMouseY_def)

lemma persistent_Dequeue:
  "persistent (snd (DequeueEvent st)) = persistent st"
  "persistent (snd (DequeueAllEvents st)) = persistent st"
  by (simp_all add: persistent_def DequeueEvent_def DequeueAllEvents_def split: list.split)

lemma key_state_after_calls:
  assumes "code < K"
  shows "IsKeyPressed K (input_calls K cs st) code
           = (case last_key_state code (enqueued cs) of
                None \<Rightarrow> IsKeyPressed K st code | Some p \<Rightarrow> p)"
proof (induction cs rule: rev_induct)
  case Nil
  show ?case
    by (simp add: input_calls_def last_key_state_def most_recent_def)
next
  case (snoc c cs)
  let ?st = "input_calls K cs st"
  have run: "input_calls K (cs @ [c]) st = input_call K ?st c"
    by (simp add: input_calls_def)
  show ?case
  proof (cases c)
    case (Enqueue ev)
    have q: "IsKeyPressed K (input_call K ?st c) code
        = IsKeyPressed K (UpdateInputState K (ConvertEvent ev) ?st) code"
      using Enqueue by (simp add: EnqueueEvent_def Let_def IsKeyPressed_def)
    show ?thesis
      unfolding run q
      using snoc.IH assms Enqueue
      by (simp add: enqueued_append last_key_state_def most_recent_snoc IsKeyPressed_update)
  next
    case Dequeue
    then have pe: "persistent (input_call K ?st c) = persistent ?st"
      by (simp add: persistent_Dequeue)
    have q: "IsKeyPressed K (input_call K ?st c) code = IsKeyPressed K ?st code"
      by (simp only: queries_persistent pe)
    show ?thesis
      unfolding run q using snoc.IH Dequeue by (simp add: enqueued_append)
  next
    case DequeueAll
    then have pe: "persistent (input_call K ?st c) = persistent ?st"
      by (simp add: persistent_Dequeue)
    have q: "IsKeyPressed K (input_call K ?st c) code = IsKeyPressed K ?st code"
      by (simp only: queries_persistent pe)
    show ?thesis
      unfolding run q using snoc.IH DequeueAll by (simp add: enqueued_append)
  qed
qed

lemma button_state_after_calls:
  assumes b: "MOUSE_NONE < b \<and> b < MOUSE_BUTTON_MAX"
  shows "IsMouseButtonPressed (input_calls K cs st) b
          = (case last_button_state b (enqueued cs) of
               None \<Rightarrow> IsMouseButtonPressed st b | Some p \<Rightarrow> p)"
proof (induction cs rule: rev_induct)
  case Nil
  show ?case
    by (simp add: input_calls_def last_button_state_def most_recent_def)
next
  case (snoc c cs)
  let ?st = "input_calls K cs st"
  have run: "input_calls K (cs @ [c]) st = input_call K ?st c"
    by (simp add: input_calls_def)
  show ?case
  proof (cases c)
    case (Enqueue ev)
    have q: "IsMouseButtonPressed (input_call K ?st c) b
        = IsMouseButtonPressed (UpdateInputState K (ConvertEvent ev) ?st) b"
      using Enqueue by (simp add: EnqueueEvent_def Let_def IsMouseButtonPressed_def)
    show ?thesis
      unfolding run q
      using snoc.IH b Enqueue
      by (simp add: enqueued_append last_button_state_def most_recent_snoc
          IsMouseButtonPressed_update)
  next
    case Dequeue
    then have pe: "persistent (input_call K ?st c) = persistent ?st"
      by (simp add: persistent_Dequeue)
    have q: "IsMouseButtonPressed (input_call K ?st c) b = IsMouseButtonPressed ?st b"
      by (simp only: queries_persistent pe)
    show ?thesis
      unfolding run q using snoc.IH Dequeue by (simp add: enqueued_append)
  next
    case DequeueAll
    then have pe: "persistent (input_call K ?st c) = persistent ?st"
      by (simp add: persistent_Dequeue)
    have q: "IsMouseButtonPressed (input_call K ?st c) b = IsMouseButtonPressed ?st b"
      by (simp only: queries_persistent pe)
    show ?thesis
      unfolding run q using snoc.IH DequeueAll by (simp add: enqueued_append)
  qed
qed

lemma mouse_position_after_calls:
  "(GetMouseX (input_calls K cs st), GetMouseY (input_calls K cs st))
     = (case last_mouse_position (enqueued cs) of
          None \<Rightarrow> (GetMouseX st, GetMouseY st) | Some p \<Rightarrow> p)"
proof (induction cs rule: rev_induct)
  case Nil
  show ?case
    by (simp add: input_calls_def last_mouse_position_def most_recent_def)
next
  case (snoc c cs)
  let ?st = "input_calls K cs st"
  have run: "input_calls K (cs @ [c]) st = input_call K ?st c"
    by (simp add: input_calls_def)
  show ?case
  proof (cases c)
    case (Enqueue ev)
    have q: "GetMouseX (input_call K ?st c) = GetMouseX (UpdateInputState K (ConvertEvent ev) ?st)"
       "GetMouseY (input_call K ?st c) = GetMouseY (UpdateInputState K (ConvertEvent ev) ?st)"
      using Enqueue by (simp_all add: EnqueueEvent_def Let_def GetMouseX_def GetMouseY_def)
    have mp: "(GetMouseX (UpdateInputState K (ConvertEvent ev) ?st), GetMouseY (UpdateInputState K (ConvertEvent ev) ?st))
     = (if is_mouse (ConvertEvent ev) then position (ConvertEvent ev) else (GetMouseX ?st, GetMouseY ?st))"
      by (rule mouse_position_update)
    show ?thesis
      unfolding run q
      using snoc.IH Enqueue mp
      by (simp add: enqueued_append last_mouse_position_def most_recent_snoc)
  next
    case Dequeue
    then have pe: "persistent (input_call K ?st c) = persistent ?st"
      by (simp add: persistent_Dequeue)
    have q: "GetMouseX (input_call K ?st c) = GetMouseX ?st"
      "GetMouseY (input_call K ?st c) = GetMouseY ?st"
      by (simp_all only: queries_persistent pe)
    show ?thesis
      unfolding run q using snoc.IH Dequeue
      by (simp add: enqueued_append)
  next
    case DequeueAll
    then have pe: "persistent (input_call K ?st c) = persistent ?st"
      by (simp add: persistent_Dequeue)
    have q: "GetMouseX (input_call K ?st c) = GetMouseX ?st"
      "GetMouseY (input_call K ?st c) = GetMouseY ?st"
      by (simp_all only: queries_persistent pe)
    show ?thesis
      unfolding run q using snoc.IH DequeueAll
      by (simp add: enqueued_append)
  qed
qed

text \<open>
  C6 (as amended). Let any calls of \<open>EnqueueEvent\<close>, \<open>DequeueEvent\<close> and
  \<open>DequeueAllEvents\<close> run in any order. For every key code below \<open>KEY_CODE_MAX\<close>,
  \<open>IsKeyPressed\<close> is then the most recent \<open>KEY_DOWN\<close> or \<open>KEY_UP\<close> event enqueued for
  that code (pressed for down), or what it was before when there is none; for every key code
  at or above \<open>KEY_CODE_MAX\<close>, \<open>IsKeyPressed\<close> is false; for every button strictly between
  \<open>MOUSE_NONE\<close> and \<open>MOUSE_BUTTON_MAX\<close>, \<open>IsMouseButtonPressed\<close> is the most recent
  \<open>MOUSE_DOWN\<close> or \<open>MOUSE_UP\<close> event enqueued for that button; and \<open>GetMouseX\<close>,
  \<open>GetMouseY\<close> are the position of the most recent mouse event enqueued.
  Only the enqueued events count: dequeuing and draining change nothing of it.
\<close>

theorem persistent_state_after_calls:
  "(code < K \<longrightarrow>
      IsKeyPressed K (input_calls K cs st) code
        = (case last_key_state code (enqueued cs) of
             None \<Rightarrow> IsKeyPressed K st code | Some p \<Rightarrow> p))
   \<and> (K \<le> code \<longrightarrow> \<not> IsKeyPressed K (input_calls K cs st) code)
   \<and> (MOUSE_NONE < b \<and> b < MOUSE_BUTTON_MAX \<longrightarrow>
        IsMouseButtonPressed (input_calls K cs st) b
          = (case last_button_state b (enqueued cs) of
               None \<Rightarrow> IsMouseButtonPressed st b | Some p \<Rightarrow> p))
   \<and> (GetMouseX (input_calls K cs st), GetMouseY (input_calls K cs st))
        = (case last_mouse_position (enqueued cs) of
             None \<Rightarrow> (GetMouseX st, GetMouseY st) | Some p \<Rightarrow> p)"
proof -
  have "\<not> IsKeyPressed K (input_calls K cs st) code" if "K \<le> code"
    using that by (simp add: IsKeyPressed_def)
  then show ?thesis
    by (simp add: key_state_after_calls button_state_after_calls mouse_position_after_calls)
qed

theorem persistent_state_after_calls_witness:
  "(65 :: uint32_t) < 256 \<and> (256 :: uint32_t) \<le> 256
   \<and> MOUSE_NONE < MOUSE_LEFT \<and> MOUSE_LEFT < MOUSE_BUTTON_MAX
   \<and> IsKeyPressed 256 (input_calls 256
         [Enqueue (key_event PP_INPUTEVENT_TYPE_KEYDOWN 65), Dequeue,
          Enqueue (mouse_event PP_INPUTEVENT_TYPE_MOUSEDOWN PP_INPUTEVENT_MOUSEBUTTON_LEFT 10 20),
          Enqueue (key_event PP_INPUTEVENT_TYPE_KEYUP 65), DequeueAll,
          Enqueue (key_event PP_INPUTEVENT_TYPE_KEYDOWN 256)] InitialInputState) 65 = False
   \<and> IsKeyPressed 256 (input_calls 256
         [Enqueue (key_event PP_INPUTEVENT_TYPE_KEYDOWN 65), Dequeue,
          Enqueue (mouse_event PP_INPUTEVENT_TYPE_MOUSEDOWN PP_INPUTEVENT_MOUSEBUTTON_LEFT 10 20),
          Enqueue (key_event PP_INPUTEVENT_TYPE_KEYUP 65), DequeueAll,
          Enqueue (key_event PP_INPUTEVENT_TYPE_KEYDOWN 256)] InitialInputState) 256 = False
   \<and> IsMouseButtonPressed (input_calls 256
         [Enqueue (key_event PP_INPUTEVENT_TYPE_KEYDOWN 65), Dequeue,
          Enqueue (mouse_event PP_INPUTEVENT_TYPE_MOUSEDOWN PP_INPUTEVENT_MOUSEBUTTON_LEFT 10 20),
          Enqueue (key_event PP_INPUTEVENT_TYPE_KEYUP 65), DequeueAll,
          Enqueue (key_event PP_INPUTEVENT_TYPE_KEYDOWN 256)] InitialInputState) MOUSE_LEFT = True"
  using persistent_state_after_calls [where code = 65 and K = 256 and b = MOUSE_LEFT
         and cs = "[Enqueue (key_event PP_INPUTEVENT_TYPE_KEYDOWN 65), Dequeue,
          Enqueue (mouse_event PP_INPUTEVENT_TYPE_MOUSEDOWN PP_INPUTEVENT_MOUSEBUTTON_LEFT 10 20),
          Enqueue (key_event PP_INPUTEVENT_TYPE_KEYUP 65), DequeueAll,
          Enqueue (key_event PP_INPUTEVENT_TYPE_KEYDOWN 256)]" and st = InitialInputState]
    persistent_state_after_calls [where code = 256 and K = 256 and b = MOUSE_LEFT
         and cs = "[Enqueue (key_event PP_INPUTEVENT_TYPE_KEYDOWN 65), Dequeue,
          Enqueue (mouse_event PP_INPUTEVENT_TYPE_MOUSEDOWN PP_INPUTEVENT_MOUSEBUTTON_LEFT 10 20),
          Enqueue (key_event PP_INPUTEVENT_TYPE_KEYUP 65), DequeueAll,
          Enqueue (key_event PP_INPUTEVENT_TYPE_KEYDOWN 256)]" and st = InitialInputState]
  by (simp add: last_key_state_def last_button_state_def most_recent_def key_down_up_def
      button_down_up_def is_down_def ConvertEvent_def key_event_def mouse_event_def
      convert_key_def convert_mouse_def convert_button_def)

text \<open>
  C6 as stated fails for a key code that is not below \<open>KEY_CODE_MAX\<close> (here 256, with
  \<open>KEY_CODE_MAX\<close> = 256): the most recent event of that key is a key-down, and
  \<open>IsKeyPressed\<close> answers false, because \<open>UpdateInputState\<close> skips such codes.
\<close>

theorem persistent_state_out_of_range_counterexample:
  "\<not> (IsKeyPressed 256
         (input_calls 256 [Enqueue (key_event PP_INPUTEVENT_TYPE_KEYDOWN 256)] InitialInputState) 256
       = (case last_key_state 256 (enqueued [Enqueue (key_event PP_INPUTEVENT_TYPE_KEYDOWN 256)]) of
            None \<Rightarrow> IsKeyPressed 256 InitialInputState 256 | Some p \<Rightarrow> p))"
  by (simp add: IsKeyPressed_def last_key_state_def most_recent_def key_down_up_def
      is_down_def ConvertEvent_def key_event_def convert_key_def)

text \<open>
  C9. \<open>ConvertEvent\<close> copies the character text with \<open>strncpy\<close> and a count of 5.
  For a text of five bytes the five bytes written are the text, with no NUL among them: the
  buffer is not terminated. A text of two bytes is followed by NUL bytes.
\<close>

theorem character_text_not_terminated:
  "event (ConvertEvent (char_event ''hello'')) = INPUT_CHARACTER (CharacterEvent ''hello'')
   \<and> CHR 0x00 \<notin> set (character_text (CharacterEvent ''hello''))
   \<and> event (ConvertEvent (char_event ''hi'')) = INPUT_CHARACTER (CharacterEvent [CHR ''h'', CHR ''i'', CHR 0x00, CHR 0x00, CHR 0x00])"
  by (simp add: ConvertEvent_def char_event_def convert_character_def strncpy_def eval_nat_numeral)

section \<open>Properties of the shader program manager\<close>

lemma same_books_refl: "same_books g g"
  by (simp add: same_books_def)

lemma same_books_trans: "same_books g g1 \<Longrightarrow> same_books g1 g2 \<Longrightarrow> same_books g g2"
  by (simp add: same_books_def)

lemma same_books_fields:
  assumes "same_books g g'"
  shows "driver g' = driver g" "defaultShader g' = defaultShader g"
    "defaultSources g' = defaultSources g" "maxTextureUnits g' = maxTextureUnits g"
    "textureCounters g' = textureCounters g" "shaders g' = shaders g"
    "nextShader g' = nextShader g"
  using assms by (simp_all add: same_books_def)

lemma same_books_attach: "same_books g (snd (attach this temporary g))"
  by (simp add: attach_def same_books_def glUseProgram_def Let_def split: option.split)

lemma same_books_detach: "same_books g (snd (detach g))"
  by (simp add: detach_def same_books_attach split: option.split)
     (simp add: same_books_def glUseProgram_def)

lemma unsaturated_same_books: "same_books g g' \<Longrightarrow> unsaturated g \<Longrightarrow> unsaturated g'"
  by (simp add: unsaturated_def same_books_fields)

lemma users_same_books: "same_books g g' \<Longrightarrow> users g' i = users g i"
  by (simp add: users_def same_books_fields)

lemma wellformed_same_books: "same_books g g' \<Longrightarrow> wellformed b g \<Longrightarrow> wellformed b g'"
  by (simp add: wellformed_def sized_def counted_def users_same_books same_books_fields)

lemma users_holds: "users g i = {this. \<exists>sh. shaders g this = Some sh \<and> holds sh i}"
  by (simp add: users_def holds_def)

lemma finite_users: "sized g \<Longrightarrow> finite (users g i)"
proof -
  assume "sized g"
  then have "users g i \<subseteq> {..<nextShader g}"
    by (auto simp: users_def sized_def)
  then show ?thesis by (rule finite_subset) simp
qed

lemma users_update:
  "users (g\<lparr>textureCounters := cs, shaders := (shaders g)(this \<mapsto> sh')\<rparr>) i
     = (if holds sh' i then insert this (users g i) else users g i - {this})"
  by (auto simp: users_holds)

lemma users_remove:
  "users (g\<lparr>shaders := (shaders g)(this := None)\<rparr>) i = users g i - {this}"
  by (auto simp: users_holds)

lemma card_users_update:
  assumes "finite U"
  shows "int (card (if now then insert this U else U - {this})) + (if this \<in> U then 1 else 0)
           = int (card U) + (if now then 1 else 0)"
proof (cases "this \<in> U")
  case True
  then have "card U > 0" using assms by (auto simp: card_gt_0_iff)
  with True assms show ?thesis by (simp add: insert_absorb)
next
  case False
  with assms show ?thesis by simp
qed

lemma wellformed_update_shader:
  assumes wf: "wellformed b g"
    and live: "shaders g this = Some sh"
    and len: "length (activeTextureUnits sh') = maxTextureUnits g"
    and pool: "\<forall>name u. textureUnitPool sh' name = Some u \<longrightarrow> 1 \<le> u \<and> u \<le> int (maxTextureUnits g)"
    and lenc: "length cs = length (textureCounters g)"
    and rng: "\<forall>c \<in> set cs. - 2147483648 \<le> c \<and> c < 2147483648"
    and cnt: "b \<Longrightarrow> \<forall>i < length cs. textureCounters g ! i + (if holds sh' i then 1 else 0)
                \<le> cs ! i + (if holds sh i then 1 else 0)"
  shows "wellformed b (g\<lparr>textureCounters := cs, shaders := (shaders g)(this \<mapsto> sh')\<rparr>)"
proof -
  let ?g = "g\<lparr>textureCounters := cs, shaders := (shaders g)(this \<mapsto> sh')\<rparr>"
  from wf have sz: "sized g" by (simp add: wellformed_def)
  have "sized ?g"
    using sz live len pool lenc rng by (auto simp: sized_def)
  moreover have "counted ?g" if b
    unfolding counted_def
  proof (intro allI impI)
    from wf that have ct: "counted g" by (simp add: wellformed_def)
    fix i assume "i < length (textureCounters ?g)"
    then have i: "i < length cs" by simp
    have mem: "(this \<in> users g i) = holds sh i"
      using live by (auto simp: users_holds)
    have "int (card (users ?g i)) + (if holds sh i then 1 else 0)
            = int (card (users g i)) + (if holds sh' i then 1 else 0)"
      unfolding users_update using card_users_update [OF finite_users [OF sz], of "holds sh' i" this i]
      by (simp add: mem)
    moreover have "int (card (users g i)) \<le> textureCounters g ! i"
      using ct i lenc by (simp add: counted_def)
    moreover have "textureCounters g ! i + (if holds sh' i then 1 else 0)
                \<le> cs ! i + (if holds sh i then 1 else 0)"
      using cnt [OF that] i by blast
    ultimately show "int (card (users ?g i)) \<le> textureCounters ?g ! i"
      by (simp split: if_splits)
  qed
  ultimately show ?thesis by (simp add: wellformed_def)
qed

lemma counters_in_range:
  "wellformed b g \<Longrightarrow> \<forall>c \<in> set (textureCounters g). - 2147483648 \<le> c \<and> c < 2147483648"
  by (simp add: wellformed_def sized_def)

lemma wellformed_remove_shader:
  assumes wf: "wellformed b g" and ne: "shaders g this \<noteq> None"
  shows "wellformed b (g\<lparr>shaders := (shaders g)(this := None)\<rparr>)"
proof -
  let ?g = "g\<lparr>shaders := (shaders g)(this := None)\<rparr>"
  from wf have sz: "sized g" by (simp add: wellformed_def)
  have lim: "maxTextureUnits g = unit_limit (driver g)"
    using sz ne by (auto simp: sized_def)
  have "sized ?g"
    using sz lim by (auto simp: sized_def)
  moreover have "counted ?g" if b
    unfolding counted_def
  proof (intro allI impI)
    from wf that have ct: "counted g" by (simp add: wellformed_def)
    fix i assume i: "i < length (textureCounters ?g)"
    have "card (users ?g i) \<le> card (users g i)"
      unfolding users_remove by (rule card_mono [OF finite_users [OF sz]]) blast
    moreover have "int (card (users g i)) \<le> textureCounters g ! i"
      using ct i by (simp add: counted_def)
    ultimately show "int (card (users ?g i)) \<le> textureCounters ?g ! i" by simp
  qed
  ultimately show ?thesis by (simp add: wellformed_def)
qed

lemma std_find_le: "std_find v xs \<le> length xs"
  by (induction xs) simp_all

lemma std_find_less_iff: "std_find v xs \<noteq> length xs \<longleftrightarrow> v \<in> set xs"
  by (induction xs) auto

lemma std_find_nth: "v \<in> set xs \<Longrightarrow> xs ! std_find v xs = v"
  by (induction xs) auto

lemma std_find_first: "k < std_find v xs \<Longrightarrow> xs ! k \<noteq> v"
proof (induction xs arbitrary: k)
  case Nil
  then show ?case by simp
next
  case (Cons x xs)
  then show ?case by (cases k) (auto split: if_splits)
qed

lemma std_find_least: "v \<in> set xs \<Longrightarrow> std_find v xs = (LEAST i. i < length xs \<and> xs ! i = v)"
proof -
  assume v: "v \<in> set xs"
  have lt: "std_find v xs < length xs"
    using v std_find_le [of v xs] std_find_less_iff [of v xs] by simp
  show ?thesis
  proof (rule Least_equality [symmetric])
    show "std_find v xs < length xs \<and> xs ! std_find v xs = v"
      using lt v by (simp add: std_find_nth)
  next
    fix y assume "y < length xs \<and> xs ! y = v"
    then show "std_find v xs \<le> y"
      using std_find_first [of y v xs] by (cases "y < std_find v xs") auto
  qed
qed

lemma decrement_loop:
  "length (foldl (\<lambda>cs i. if units ! i > 0 then cs[i := max (int32 (cs ! i - 1)) 0] else cs) cs [0..<n])
     = length cs
   \<and> (\<forall>j < length cs.
        foldl (\<lambda>cs i. if units ! i > 0 then cs[i := max (int32 (cs ! i - 1)) 0] else cs) cs [0..<n] ! j
          = (if j < n \<and> units ! j > 0 then max (int32 (cs ! j - 1)) 0 else cs ! j))"
proof (induction n)
  case 0
  show ?case by simp
next
  case (Suc n)
  let ?F = "\<lambda>n. foldl (\<lambda>cs i. if units ! i > 0 then cs[i := max (int32 (cs ! i - 1)) 0] else cs) cs [0..<n]"
  from Suc have len: "length (?F n) = length cs"
    and nth: "\<And>j. j < length cs \<Longrightarrow>
        ?F n ! j = (if j < n \<and> units ! j > 0 then max (int32 (cs ! j - 1)) 0 else cs ! j)"
    by simp_all
  have step: "?F (Suc n) = (if units ! n > 0 then (?F n)[n := max (int32 (?F n ! n - 1)) 0] else ?F n)"
    by simp
  have "length (?F (Suc n)) = length cs"
    unfolding step using len by simp
  moreover have "?F (Suc n) ! j
      = (if j < Suc n \<and> units ! j > 0 then max (int32 (cs ! j - 1)) 0 else cs ! j)"
    if j: "j < length cs" for j
  proof (cases "j = n")
    case True
    then show ?thesis
      unfolding step using j len nth [of n] by simp
  next
    case False
    then show ?thesis
      unfolding step using j nth [of j] by (simp add: less_Suc_eq)
  qed
  ultimately show ?case by blast
qed

lemma int32_id: "- 2147483648 \<le> x \<Longrightarrow> x < 2147483648 \<Longrightarrow> int32 x = x"
  by (simp add: int32_def)

lemma int32_range: "- 2147483648 \<le> int32 x \<and> int32 x < 2147483648"
proof -
  have "0 \<le> (x + 2147483648) mod 4294967296" "(x + 2147483648) mod 4294967296 < 4294967296"
    by simp_all
  then show ?thesis unfolding int32_def by linarith
qed

lemma length_decrement_counters [simp]:
  "length (decrement_counters units cs) = length cs"
  using decrement_loop [of units cs "length units"] by (simp add: decrement_counters_def)

lemma nth_decrement_counters:
  "j < length cs \<Longrightarrow>
   decrement_counters units cs ! j
     = (if j < length units \<and> units ! j > 0 then max (int32 (cs ! j - 1)) 0 else cs ! j)"
  using decrement_loop [of units cs "length units"] by (simp add: decrement_counters_def)

lemma wellformed_shader_fields:
  assumes wf: "wellformed b g" and live: "shaders g this = Some sh"
    and a: "activeTextureUnits sh' = activeTextureUnits sh"
    and p: "textureUnitPool sh' = textureUnitPool sh"
  shows "wellformed b (g\<lparr>shaders := (shaders g)(this \<mapsto> sh')\<rparr>)"
proof -
  have "wellformed b (g\<lparr>textureCounters := textureCounters g, shaders := (shaders g)(this \<mapsto> sh')\<rparr>)"
  proof (rule wellformed_update_shader [OF wf live _ _ _ counters_in_range [OF wf]])
    show "length (activeTextureUnits sh') = maxTextureUnits g"
      using wf live a by (auto simp: wellformed_def sized_def)
    show "\<forall>name u. textureUnitPool sh' name = Some u \<longrightarrow> 1 \<le> u \<and> u \<le> int (maxTextureUnits g)"
      using wf live p by (auto simp: wellformed_def sized_def)
    show "\<forall>i<length (textureCounters g).
       textureCounters g ! i + (if holds sh' i then 1 else 0)
       \<le> textureCounters g ! i + (if holds sh i then 1 else 0)"
      by (simp add: holds_def a)
  qed simp
  then show ?thesis by simp
qed

lemma holds_cleared [simp]:
  "\<not> holds (sh\<lparr>activeTextureUnits := replicate n 0\<rparr>) i"
  by (auto simp: holds_def)

lemma wellformed_setUniforms: "wellformed b g \<Longrightarrow> wellformed b (setUniforms this u g)"
  by (auto simp: setUniforms_def split: option.split intro: wellformed_shader_fields)

lemma wellformed_setProgram: "wellformed b g \<Longrightarrow> wellformed b (setProgram this p g)"
  by (auto simp: setProgram_def split: option.split intro: wellformed_shader_fields)

lemma wellformed_setTextureUnitPool:
  assumes wf: "wellformed b g" and u: "1 \<le> u" "u \<le> int (maxTextureUnits g)"
  shows "wellformed b (setTextureUnitPool this name u g)"
proof (cases "shaders g this")
  case None
  then show ?thesis using wf by (simp add: setTextureUnitPool_def)
next
  case (Some sh)
  let ?sh = "sh\<lparr>textureUnitPool := (textureUnitPool sh)(name \<mapsto> u)\<rparr>"
  have "wellformed b (g\<lparr>textureCounters := textureCounters g, shaders := (shaders g)(this \<mapsto> ?sh)\<rparr>)"
  proof (rule wellformed_update_shader [OF wf Some _ _ _ counters_in_range [OF wf]])
    show "length (activeTextureUnits ?sh) = maxTextureUnits g"
      using wf Some by (auto simp: wellformed_def sized_def)
    show "\<forall>n v. textureUnitPool ?sh n = Some v \<longrightarrow> 1 \<le> v \<and> v \<le> int (maxTextureUnits g)"
      using wf Some u by (auto simp: wellformed_def sized_def)
    show "\<forall>i<length (textureCounters g).
       textureCounters g ! i + (if holds ?sh i then 1 else 0)
       \<le> textureCounters g ! i + (if holds sh i then 1 else 0)"
      by (simp add: holds_def)
  qed simp
  then show ?thesis using Some by (simp add: setTextureUnitPool_def)
qed

lemma wellformed_clearActiveTextureUnits:
  assumes wf: "wellformed b g"
  shows "wellformed b (clearActiveTextureUnits this g)"
proof (cases "shaders g this")
  case None
  then show ?thesis using wf by (simp add: clearActiveTextureUnits_def)
next
  case (Some sh)
  let ?sh = "sh\<lparr>activeTextureUnits := replicate (maxTextureUnits g) 0\<rparr>"
  have "wellformed b (g\<lparr>textureCounters := textureCounters g, shaders := (shaders g)(this \<mapsto> ?sh)\<rparr>)"
  proof (rule wellformed_update_shader [OF wf Some _ _ _ counters_in_range [OF wf]])
    show "\<forall>n v. textureUnitPool ?sh n = Some v \<longrightarrow> 1 \<le> v \<and> v \<le> int (maxTextureUnits g)"
      using wf Some by (auto simp: wellformed_def sized_def)
    show "\<forall>i<length (textureCounters g).
       textureCounters g ! i + (if holds ?sh i then 1 else 0)
       \<le> textureCounters g ! i + (if holds sh i then 1 else 0)"
      by simp
  qed simp_all
  then show ?thesis using Some by (simp add: clearActiveTextureUnits_def)
qed

lemma wellformed_getUniformLocation:
  "wellformed b g \<Longrightarrow> wellformed b (snd (getUniformLocation this name unsafe g))"
  by (simp add: getUniformLocation_def Let_def wellformed_setUniforms split: option.split)

lemma wellformed_getTextureUnit:
  assumes wf: "wellformed b g"
  shows "wellformed b (snd (getTextureUnit this name g))"
proof (cases "shaders g this")
  case None
  then show ?thesis using wf by (simp add: getTextureUnit_def)
next
  case (Some sh)
  from wf Some have lens: "length (textureCounters g) = maxTextureUnits g"
    "length (activeTextureUnits sh) = maxTextureUnits g"
    by (auto simp: wellformed_def sized_def)
  have 1: "std_find 0 (textureCounters g) \<noteq> length (textureCounters g) \<Longrightarrow>
      wellformed b (setTextureUnitPool this name (int (std_find 0 (textureCounters g)) + 1) g)"
    using std_find_le [of 0 "textureCounters g"] lens
    by (intro wellformed_setTextureUnitPool [OF wf]) auto
  have 2: "std_find 0 (activeTextureUnits sh) \<noteq> length (activeTextureUnits sh) \<Longrightarrow>
      wellformed b (setTextureUnitPool this name (int (std_find 0 (activeTextureUnits sh)) + 1) g)"
    using std_find_le [of 0 "activeTextureUnits sh"] lens
    by (intro wellformed_setTextureUnitPool [OF wf]) auto
  show ?thesis
    using Some wf 1 2 by (simp add: getTextureUnit_def Let_def split: option.split)
qed

lemma holds_word: "holds sh i \<longleftrightarrow> i < length (activeTextureUnits sh) \<and> activeTextureUnits sh ! i > 0"
  by (simp add: holds_def word_gt_0)

lemma wellformed_record_texture:
  assumes wf: "wellformed b g" and below: "b \<longrightarrow> unsaturated g"
  shows "wellformed b (snd (record_texture this textureunit texture g))"
proof (cases "shaders g this")
  case None
  then show ?thesis using wf by (simp add: record_texture_def)
next
  case (Some sh)
  let ?i = "nat (textureunit - 1)"
  let ?cs = "if activeTextureUnits sh ! ?i = 0
             then (textureCounters g)[?i := int32 (textureCounters g ! ?i + 1)] else textureCounters g"
  let ?sh = "sh\<lparr>activeTextureUnits := (activeTextureUnits sh)[?i := texture]\<rparr>"
  note rng = counters_in_range [OF wf]
  have upd: "wellformed b (g\<lparr>textureCounters := ?cs, shaders := (shaders g)(this \<mapsto> ?sh)\<rparr>)"
    if i: "?i < length (activeTextureUnits sh)"
  proof (rule wellformed_update_shader [OF wf Some])
    show "length (activeTextureUnits ?sh) = maxTextureUnits g"
      using wf Some by (auto simp: wellformed_def sized_def)
    show "\<forall>n v. textureUnitPool ?sh n = Some v \<longrightarrow> 1 \<le> v \<and> v \<le> int (maxTextureUnits g)"
      using wf Some by (auto simp: wellformed_def sized_def)
    show "length ?cs = length (textureCounters g)" by simp
    show "\<forall>c \<in> set ?cs. - 2147483648 \<le> c \<and> c < 2147483648"
    proof
      fix c assume "c \<in> set ?cs"
      then have "c = int32 (textureCounters g ! ?i + 1) \<or> c \<in> set (textureCounters g)"
        using set_update_subset_insert [of "textureCounters g" ?i "int32 (textureCounters g ! ?i + 1)"]
        by (auto split: if_splits)
      then show "- 2147483648 \<le> c \<and> c < 2147483648"
        using rng int32_range [of "textureCounters g ! ?i + 1"] by auto
    qed
    show "\<forall>j<length ?cs. textureCounters g ! j + (if holds ?sh j then 1 else 0)
       \<le> ?cs ! j + (if holds sh j then 1 else 0)" if b
    proof (intro allI impI)
      fix j assume "j < length ?cs"
      then have j: "j < length (textureCounters g)" by (simp split: if_splits)
      from below that have "unsaturated g" by simp
      with j have "textureCounters g ! j < 2147483647"
        by (simp add: unsaturated_def)
      moreover from rng j have "- 2147483648 \<le> textureCounters g ! j" by simp
      ultimately have w: "int32 (textureCounters g ! j + 1) = textureCounters g ! j + 1"
        by (intro int32_id) simp_all
      show "textureCounters g ! j + (if holds ?sh j then 1 else 0)
              \<le> ?cs ! j + (if holds sh j then 1 else 0)"
      proof (cases "j = ?i")
        case True
        then show ?thesis using i j w by (simp add: holds_def)
      next
        case False
        then show ?thesis using j by (simp add: holds_def)
      qed
    qed
  qed
  have same: "g\<lparr>textureCounters := textureCounters g, shaders := (shaders g)(this \<mapsto> ?sh)\<rparr>
      = g\<lparr>shaders := (shaders g)(this \<mapsto> ?sh)\<rparr>"
    by simp
  show ?thesis
  proof (cases "textureunit < 1 \<or> length (activeTextureUnits sh) \<le> ?i")
    case True
    then show ?thesis using Some wf by (auto simp: record_texture_def Let_def)
  next
    case False
    then have i: "?i < length (activeTextureUnits sh)" by simp
    show ?thesis
    proof (cases "activeTextureUnits sh ! ?i = 0")
      case True
      then show ?thesis
        using Some wf upd [OF i] False by (simp add: record_texture_def Let_def)
    next
      case nz: False
      then show ?thesis
        using Some wf upd [OF i] False same by (simp add: record_texture_def Let_def)
    qed
  qed
qed

lemma counters_getUniformLocation:
  "textureCounters (snd (getUniformLocation this name unsafe g)) = textureCounters g"
  by (simp add: getUniformLocation_def Let_def setUniforms_def split: option.split)

lemma counters_getTextureUnit:
  "textureCounters (snd (getTextureUnit this name g)) = textureCounters g"
  by (simp add: getTextureUnit_def Let_def setTextureUnitPool_def split: option.split)

lemma wellformed_attach: "wellformed b g \<Longrightarrow> wellformed b (snd (attach this temporary g))"
  by (rule wellformed_same_books [OF same_books_attach])

lemma wellformed_detach: "wellformed b g \<Longrightarrow> wellformed b (snd (detach g))"
  by (rule wellformed_same_books [OF same_books_detach])

lemma wellformed_TemporaryAttacher:
  assumes wf: "wellformed b g"
    and body: "\<And>g1. same_books g g1 \<Longrightarrow> wellformed b g1 \<Longrightarrow> wellformed b (snd (body g1))"
  shows "wellformed b (snd (TemporaryAttacher this body g))"
proof -
  obtain r1 g1 where a: "attach this True g = (r1, g1)" by (cases "attach this True g")
  have wf1: "wellformed b g1" using wellformed_attach [OF wf, of this True] a by simp
  obtain r2 g2 where b: "body g1 = (r2, g2)" by (cases "body g1")
  have sb: "same_books g g1" using same_books_attach [of g this True] a by simp
  have wf2: "wellformed b g2" using body [OF sb wf1] b by simp
  obtain r3 g3 where c: "(case currentShader g of Some p \<Rightarrow> attach p False g2 | None \<Rightarrow> detach g2) = (r3, g3)"
    by (cases "case currentShader g of Some p \<Rightarrow> attach p False g2 | None \<Rightarrow> detach g2")
  have "g3 = snd (case currentShader g of Some p \<Rightarrow> attach p False g2 | None \<Rightarrow> detach g2)"
    using c by simp
  then have wf3: "wellformed b g3"
    by (cases "currentShader g") (simp_all add: wellformed_attach wellformed_detach wf2)
  show ?thesis
    using a b c wf1 wf3
    by (cases r1; cases r3) (simp_all add: TemporaryAttacher_def)
qed

lemma wellformed_glUniform: "wellformed b g \<Longrightarrow> wellformed b (glUniform c g)"
  by (rule wellformed_same_books) (simp add: same_books_def glUniform_def)

lemma wellformed_sendFloat:
  "wellformed b g \<Longrightarrow> wellformed b (snd (sendFloat this name vsize vec count g))"
  unfolding sendFloat_def
proof (rule wellformed_TemporaryAttacher)
  fix g :: Graphics assume wf: "wellformed b g"
  obtain r g1 where l: "getUniformLocation this name False g = (r, g1)"
    by (cases "getUniformLocation this name False g")
  have "wellformed b g1" using wellformed_getUniformLocation [OF wf, of this name False] l by simp
  then show "wellformed b (snd (sendFloat_body this name vsize vec count g))"
    using l by (cases r) (simp_all add: sendFloat_body_def wellformed_glUniform)
qed

lemma wellformed_sendMatrix:
  "wellformed b g \<Longrightarrow> wellformed b (snd (sendMatrix this name msize m count g))"
  unfolding sendMatrix_def
proof (rule wellformed_TemporaryAttacher)
  fix g :: Graphics assume wf: "wellformed b g"
  obtain r g1 where l: "getUniformLocation this name False g = (r, g1)"
    by (cases "getUniformLocation this name False g")
  have "wellformed b g1" using wellformed_getUniformLocation [OF wf, of this name False] l by simp
  then show "wellformed b (snd (sendMatrix_body this name msize m count g))"
    using l by (cases r) (simp_all add: sendMatrix_body_def wellformed_glUniform)
qed

lemma wellformed_sendTexture:
  assumes wf0: "wellformed b g0" and below0: "b \<longrightarrow> unsaturated g0"
  shows "wellformed b (snd (sendTexture this name texture g0))"
  unfolding sendTexture_def
proof (rule wellformed_TemporaryAttacher [OF wf0])
  fix g :: Graphics assume sb: "same_books g0 g" and wf: "wellformed b g"
  have below: "b \<longrightarrow> unsaturated g"
    using below0 unsaturated_same_books [OF sb] by blast
  obtain r g1 where l: "getUniformLocation this name False g = (r, g1)"
    by (cases "getUniformLocation this name False g")
  have wf1: "wellformed b g1" using wellformed_getUniformLocation [OF wf, of this name False] l by simp
  have c1: "textureCounters g1 = textureCounters g"
    using counters_getUniformLocation [of this name False g] l by simp
  obtain r2 g2 where u: "getTextureUnit this name g1 = (r2, g2)"
    by (cases "getTextureUnit this name g1")
  have wf2: "wellformed b g2" using wellformed_getTextureUnit [OF wf1, of this name] u by simp
  have c2: "textureCounters g2 = textureCounters g"
    using counters_getTextureUnit [of this name g1] u c1 by simp
  have wf5: "wellformed b (record_texture_arg) \<and> (b \<longrightarrow> unsaturated record_texture_arg)"
    if "record_texture_arg =
      (glUniform (Uniform1i location textureunit)
         (g2\<lparr>ctx := bindTextureToUnit texture textureunit False (ctx g2)\<rparr>))
        \<lparr>ctx := setActiveTextureUnit 0 (ctx (glUniform (Uniform1i location textureunit)
         (g2\<lparr>ctx := bindTextureToUnit texture textureunit False (ctx g2)\<rparr>)))\<rparr>"
    for record_texture_arg location textureunit
  proof
    show "wellformed b record_texture_arg"
      unfolding that
      by (rule wellformed_same_books [OF _ wf2]) (simp add: same_books_def glUniform_def)
    show "b \<longrightarrow> unsaturated record_texture_arg"
      unfolding that using below c2 by (simp add: unsaturated_def glUniform_def)
  qed
  show "wellformed b (snd (case getUniformLocation this name False g of
         (Inl e, g1) \<Rightarrow> (Inl e, g1)
       | (Inr location, g1) \<Rightarrow>
           (case getTextureUnit this name g1 of
              (Inl e, g2) \<Rightarrow> (Inl e, g2)
            | (Inr textureunit, g2) \<Rightarrow>
                (let g3 = g2\<lparr>ctx := bindTextureToUnit texture textureunit False (ctx g2)\<rparr>;
                     g4 = glUniform (Uniform1i location textureunit) g3;
                     g5 = g4\<lparr>ctx := setActiveTextureUnit 0 (ctx g4)\<rparr>
                 in record_texture this textureunit texture g5))))"
    using l u wf1 wf2
    by (cases r; cases r2) (simp_all add: Let_def wellformed_record_texture wf5)
qed

lemma wellformed_hasUniform:
  "wellformed b g \<Longrightarrow> wellformed b (snd (hasUniform this name g))"
  using wellformed_getUniformLocation [of b g this name True]
  by (auto simp: hasUniform_def split: prod.split sum.split)

lemma wellformed_createProgram:
  "wellformed b g \<Longrightarrow> wellformed b (snd (createProgram this shaderids g))"
  by (simp add: createProgram_def Let_def wellformed_setProgram split: option.split)

lemma same_books_createProgram_current:
  "currentShader (snd (createProgram this shaderids g)) = currentShader g"
  by (simp add: createProgram_def Let_def setProgram_def split: option.split)

lemma wellformed_loadVolatile_cleared:
  assumes wf: "wellformed b (clearActiveTextureUnits this g)"
  shows "wellformed b (snd (loadVolatile this g))"
proof (cases "shaders g this")
  case None
  then show ?thesis using wf by (simp add: loadVolatile_def clearActiveTextureUnits_def)
next
  case (Some sh)
  let ?g1 = "clearActiveTextureUnits this g"
  show ?thesis
  proof (cases "compile_sources (driver ?g1) (sources_list (shaderSources sh))")
    case (Inl e)
    then show ?thesis using Some wf by (simp add: loadVolatile_def Let_def)
  next
    case (Inr shaderids)
    obtain r g2 where cp: "createProgram this shaderids ?g1 = (r, g2)"
      by (cases "createProgram this shaderids ?g1")
    have wf2: "wellformed b g2"
      using wellformed_createProgram [OF wf, of this shaderids] cp by simp
    have wf3: "wellformed b (snd (attach this False (g2\<lparr>currentShader := None\<rparr>)))"
      by (rule wellformed_attach, rule wellformed_same_books [OF _ wf2]) (simp add: same_books_def)
    show ?thesis
      using Some Inr cp wf wf2 wf3
      by (cases r) (auto simp: loadVolatile_def Let_def split: prod.split sum.split)
  qed
qed

lemma wellformed_loadVolatile:
  "wellformed b g \<Longrightarrow> wellformed b (snd (loadVolatile this g))"
  by (rule wellformed_loadVolatile_cleared) (rule wellformed_clearActiveTextureUnits)

lemma decrement_wrapped:
  "- 2147483648 \<le> c \<Longrightarrow> c < 2147483648 \<Longrightarrow> c \<le> max (int32 (c - 1)) 0 + 1"
proof (cases "c = - 2147483648")
  case True
  then show ?thesis by (simp add: int32_def)
next
  case False
  assume "- 2147483648 \<le> c" "c < 2147483648"
  with False have "int32 (c - 1) = c - 1" by (intro int32_id) simp_all
  then show ?thesis by simp
qed

lemma decrement_counters_in_range:
  assumes "\<forall>c \<in> set cs. - 2147483648 \<le> c \<and> c < 2147483648"
  shows "\<forall>c \<in> set (decrement_counters units cs). - 2147483648 \<le> c \<and> c < 2147483648"
proof
  fix c assume "c \<in> set (decrement_counters units cs)"
  then obtain j where j: "j < length cs" and c: "c = decrement_counters units cs ! j"
    by (auto simp: in_set_conv_nth)
  from assms j have "- 2147483648 \<le> cs ! j \<and> cs ! j < 2147483648" by simp
  then show "- 2147483648 \<le> c \<and> c < 2147483648"
    unfolding c nth_decrement_counters [OF j]
    using int32_range [of "cs ! j - 1"] by (simp add: max_def)
qed

lemma wellformed_unloadVolatile:
  assumes wf: "wellformed b g"
  shows "wellformed b (snd (unloadVolatile this g))"
proof (cases "shaders g this")
  case None
  then show ?thesis using wf by (simp add: unloadVolatile_def)
next
  case (Some sh)
  let ?g1 = "if currentShader g = Some this then glUseProgram 0 g else g"
  have sb: "same_books g ?g1" by (simp add: same_books_def glUseProgram_def)
  have wf1: "wellformed b ?g1" by (rule wellformed_same_books [OF sb wf])
  have live1: "shaders ?g1 this = Some sh" using Some by (simp add: glUseProgram_def)
  note rng1 = counters_in_range [OF wf1]
  have ub: "wellformed b (?g1\<lparr>shaders := (shaders ?g1)(this \<mapsto> sh\<lparr>program := 0\<rparr>)\<rparr>)"
    by (rule wellformed_shader_fields [OF wf1 live1]) simp_all
  let ?sh = "sh\<lparr>program := 0, activeTextureUnits := replicate (maxTextureUnits ?g1) 0,
                 uniforms := Map.empty\<rparr>"
  let ?cs = "decrement_counters (activeTextureUnits sh) (textureCounters ?g1)"
  have ok: "wellformed b (?g1\<lparr>textureCounters := ?cs, shaders := (shaders ?g1)(this \<mapsto> ?sh)\<rparr>)"
  proof (rule wellformed_update_shader [OF wf1 live1])
    show "length (activeTextureUnits ?sh) = maxTextureUnits ?g1" by simp
    show "\<forall>n v. textureUnitPool ?sh n = Some v \<longrightarrow> 1 \<le> v \<and> v \<le> int (maxTextureUnits ?g1)"
      using wf1 live1 by (auto simp: wellformed_def sized_def)
    show "length ?cs = length (textureCounters ?g1)" by simp
    show "\<forall>c \<in> set ?cs. - 2147483648 \<le> c \<and> c < 2147483648"
      by (rule decrement_counters_in_range [OF rng1])
    show "\<forall>j<length ?cs. textureCounters ?g1 ! j + (if holds ?sh j then 1 else 0)
       \<le> ?cs ! j + (if holds sh j then 1 else 0)"
    proof (intro allI impI)
      fix j assume "j < length ?cs"
      then have j: "j < length (textureCounters ?g1)" by simp
      have nh: "\<not> holds ?sh j" by (auto simp: holds_def)
      show "textureCounters ?g1 ! j + (if holds ?sh j then 1 else 0)
              \<le> ?cs ! j + (if holds sh j then 1 else 0)"
        unfolding nth_decrement_counters [OF j]
        using nh decrement_wrapped [of "textureCounters ?g1 ! j"] rng1 j
        by (auto simp: holds_word)
    qed
  qed
  show ?thesis
    using Some ub ok by (simp add: unloadVolatile_def Let_def)
qed

lemma wellformed_remove:
  assumes wf: "wellformed b g"
  shows "wellformed b (g\<lparr>shaders := (shaders g)(this := None)\<rparr>)"
proof (cases "shaders g this")
  case None
  then have "(shaders g)(this := None) = shaders g" by (simp add: fun_upd_idem)
  then show ?thesis using wf by simp
next
  case (Some sh)
  then show ?thesis using wf by (intro wellformed_remove_shader) simp_all
qed

lemma wellformed_Shader_delete:
  assumes wf: "wellformed b g"
  shows "wellformed b (snd (Shader_delete this g))"
proof -
  obtain r1 g1 where d: "(if currentShader g = Some this then detach g else (Inr (), g)) = (r1, g1)"
    by (cases "if currentShader g = Some this then detach g else (Inr (), g)")
  have "g1 = snd (if currentShader g = Some this then detach g else (Inr (), g))"
    using d by simp
  then have wf1: "wellformed b g1" using wf by (simp add: wellformed_detach)
  obtain r2 g2 where u: "unloadVolatile this g1 = (r2, g2)" by (cases "unloadVolatile this g1")
  have wf2: "wellformed b g2" using wellformed_unloadVolatile [OF wf1, of this] u by simp
  show ?thesis
    unfolding Shader_delete_def d
    using wf1 wf2 u by (cases r1; cases r2) (simp_all add: wellformed_remove)
qed

lemma wellformed_counters_sized:
  assumes wf: "wellformed b g"
  defines "g1 \<equiv> g\<lparr>maxTextureUnits := nat (max (getNumTextureUnits (driver g) - 1) 0)\<rparr>"
  defines "g2 \<equiv> (if length (textureCounters g1) < maxTextureUnits g1
                      then g1\<lparr>textureCounters := textureCounters g1 @
                              replicate (maxTextureUnits g1 - length (textureCounters g1)) 0\<rparr>
                      else g1)"
  shows "wellformed b g2 \<and> maxTextureUnits g2 = unit_limit (driver g2)"
proof -
  from wf have sz: "sized g" by (simp add: wellformed_def)
  have L: "nat (max (getNumTextureUnits (driver g) - 1) 0) = unit_limit (driver g)"
    by (simp add: unit_limit_def)
  from sz have len: "length (textureCounters g) = maxTextureUnits g" by (simp add: sized_def)
  from sz consider (a) "maxTextureUnits g = unit_limit (driver g)"
    | (b) "maxTextureUnits g = 0" "shaders g = Map.empty"
    by (auto simp: sized_def)
  then show ?thesis
  proof cases
    case a
    then have "g1 = g" by (simp add: g1_def L)
    then have "g2 = g" using len by (simp add: g2_def)
    then show ?thesis using wf a by simp
  next
    case b
    have tc: "textureCounters g = []" using len b by simp
    have g2: "g2 = g\<lparr>maxTextureUnits := unit_limit (driver g),
                    textureCounters := replicate (unit_limit (driver g)) 0\<rparr>"
      by (cases "unit_limit (driver g) = 0") (simp_all add: g2_def g1_def L tc)
    have "users g2 i = {}" for i
      unfolding g2 using b by (simp add: users_def)
    then have "counted g2" by (simp add: counted_def g2)
    moreover have "sized g2" using b by (simp add: sized_def g2)
    ultimately show ?thesis by (simp add: wellformed_def g2)
  qed
qed

lemma wellformed_Shader_new:
  assumes wf: "wellformed b g"
  shows "wellformed b (snd (Shader_new sources g))"
proof (cases "sources_list sources = []")
  case True
  then show ?thesis using wf by (simp add: Shader_new_def)
next
  case False
  define g1 where "g1 = g\<lparr>maxTextureUnits := nat (max (getNumTextureUnits (driver g) - 1) 0)\<rparr>"
  define g2 where "g2 = (if length (textureCounters g1) < maxTextureUnits g1
                      then g1\<lparr>textureCounters := textureCounters g1 @
                              replicate (maxTextureUnits g1 - length (textureCounters g1)) 0\<rparr>
                      else g1)"
  have wf2: "wellformed b g2" and lim: "maxTextureUnits g2 = unit_limit (driver g2)"
    using wellformed_counters_sized [OF wf] unfolding g1_def g2_def by simp_all
  show ?thesis
  proof (cases "checkCodeCompleteness (defaultSources g2) sources")
    case (Inl e)
    then show ?thesis using False wf2
      by (simp add: Shader_new_def Let_def g1_def [symmetric] g2_def [symmetric])
  next
    case (Inr sources1)
    define this where "this = nextShader g2"
    define sh0 where "sh0 = \<lparr>shaderSources = sources1, program = 0, uniforms = Map.empty,
                                   textureUnitPool = Map.empty, activeTextureUnits = []\<rparr>"
    define g3 where "g3 = g2\<lparr>shaders := (shaders g2)(this \<mapsto> sh0), nextShader := Suc this\<rparr>"
    have fresh: "shaders g2 this = None"
    proof (rule ccontr)
      assume "shaders g2 this \<noteq> None"
      then obtain sh where "shaders g2 this = Some sh" by auto
      then have "this < nextShader g2" using wf2 by (auto simp: wellformed_def sized_def)
      then show False by (simp add: this_def)
    qed
    let ?sh = "sh0\<lparr>activeTextureUnits := replicate (maxTextureUnits g2) 0\<rparr>"
    have cl: "clearActiveTextureUnits this g3
        = g2\<lparr>shaders := (shaders g2)(this \<mapsto> ?sh), nextShader := Suc this\<rparr>"
      by (simp add: clearActiveTextureUnits_def g3_def)
    have us: "users (clearActiveTextureUnits this g3) i = users g2 i" for i
      unfolding cl using fresh by (auto simp: users_holds)
    have "sized (clearActiveTextureUnits this g3)"
      unfolding cl using wf2 lim fresh
      by (auto simp: wellformed_def sized_def sh0_def this_def less_Suc_eq)
    moreover have "b \<longrightarrow> counted (clearActiveTextureUnits this g3)"
      using wf2 us by (simp add: wellformed_def counted_def cl)
    ultimately have "wellformed b (clearActiveTextureUnits this g3)"
      by (simp add: wellformed_def)
    then have wf4: "wellformed b (snd (loadVolatile this g3))"
      by (rule wellformed_loadVolatile_cleared)
    obtain r g4 where lv: "loadVolatile this g3 = (r, g4)" by (cases "loadVolatile this g3")
    have "wellformed b g4" using wf4 lv by simp
    then have "wellformed b (snd (case loadVolatile this g3 of
                         (Inl e, g4) \<Rightarrow> (Inl e, g4\<lparr>shaders := (shaders g4)(this := None)\<rparr>)
                       | (Inr _, g4) \<Rightarrow> (Inr this, g4)))"
      using lv by (cases r) (simp_all add: wellformed_remove)
    then show ?thesis
      using False Inr
      by (simp add: Shader_new_def Let_def g1_def [symmetric] g2_def [symmetric]
          this_def [symmetric] sh0_def [symmetric] g3_def [symmetric])
  qed
qed

lemma wellformed_initial: "wellformed b (initial drv)"
  by (simp add: wellformed_def sized_def counted_def initial_def)

lemma wellformed_exec:
  assumes wf: "wellformed b g" and below: "b \<longrightarrow> unsaturated g"
  shows "wellformed b (exec c g)"
proof (cases c)
  case (SetDefaultSources sources)
  then show ?thesis using wf
    by (simp add: setDefaultSources_def wellformed_def sized_def counted_def users_def)
next
  case (SetDefaultShader d)
  then show ?thesis using wf
    by (simp add: wellformed_def sized_def counted_def users_def)
next
  case (DriverAnswers drv)
  then show ?thesis using wf
    by (simp add: wellformed_def sized_def counted_def users_def unit_limit_def)
next
  case (SendTexture this name texture)
  then show ?thesis using wellformed_sendTexture [OF wf below] by simp
qed (simp_all add: wf wellformed_Shader_new wellformed_Shader_delete wellformed_loadVolatile
      wellformed_unloadVolatile wellformed_attach wellformed_detach wellformed_getUniformLocation
      wellformed_hasUniform wellformed_sendFloat wellformed_sendMatrix
      wellformed_getTextureUnit)

lemma reachable_wellformed: "reachable g \<Longrightarrow> wellformed False g"
  by (induction rule: reachable.induct) (simp_all add: wellformed_initial wellformed_exec)



lemma reachable_below_reachable: "reachable_below g \<Longrightarrow> reachable g"
  by (induction rule: reachable_below.induct) (simp_all add: reachable.intros)

lemma kept_refl: "kept g g"
  by (simp add: kept_def)

lemma kept_trans: "kept g g1 \<Longrightarrow> kept g1 g2 \<Longrightarrow> kept g g2"
  unfolding kept_def
  by (meson order_less_le_trans map_le_trans order_trans)

lemma kept_same_books: "same_books g g' \<Longrightarrow> kept g g'"
  by (simp add: kept_def same_books_def)

lemma kept_shaders_eq:
  "shaders g' = shaders g \<Longrightarrow> nextShader g' = nextShader g \<Longrightarrow> kept g g'"
  by (simp add: kept_def)

lemma kept_update:
  assumes "shaders g this = Some sh" and "textureUnitPool sh \<subseteq>\<^sub>m textureUnitPool sh'"
    and "shaders g' = (shaders g)(this \<mapsto> sh')" and "nextShader g' = nextShader g"
  shows "kept g g'"
  using assms by (auto simp: kept_def)

lemma kept_remove:
  assumes "shaders g' = (shaders g)(this := None)" and "nextShader g' = nextShader g"
  shows "kept g g'"
  using assms by (auto simp: kept_def)

lemma kept_attach: "kept g (snd (attach this temporary g))"
  by (rule kept_same_books [OF same_books_attach])

lemma kept_detach: "kept g (snd (detach g))"
  by (rule kept_same_books [OF same_books_detach])

lemma kept_setUniforms: "kept g (setUniforms this u g)"
  by (auto simp: setUniforms_def kept_refl split: option.split intro!: kept_update [where this = this])

lemma kept_setProgram: "kept g (setProgram this p g)"
  by (auto simp: setProgram_def kept_refl split: option.split intro!: kept_update [where this = this])

lemma kept_clearActiveTextureUnits: "kept g (clearActiveTextureUnits this g)"
  by (auto simp: clearActiveTextureUnits_def kept_refl split: option.split
      intro!: kept_update [where this = this])

lemma kept_getUniformLocation: "kept g (snd (getUniformLocation this name unsafe g))"
  by (simp add: getUniformLocation_def Let_def kept_refl kept_setUniforms split: option.split)

lemma kept_getTextureUnit: "kept g (snd (getTextureUnit this name g))"
proof (cases "shaders g this")
  case None
  then show ?thesis by (simp add: getTextureUnit_def kept_refl)
next
  case (Some sh)
  have "kept g (setTextureUnitPool this name u g)" if "textureUnitPool sh name = None" for u
  proof (rule kept_update [OF Some])
    show "textureUnitPool sh \<subseteq>\<^sub>m
        textureUnitPool (sh\<lparr>textureUnitPool := (textureUnitPool sh)(name \<mapsto> u)\<rparr>)"
      using that by (auto simp: map_le_def)
    show "shaders (setTextureUnitPool this name u g) = (shaders g)(this \<mapsto>
        sh\<lparr>textureUnitPool := (textureUnitPool sh)(name \<mapsto> u)\<rparr>)"
      using Some by (simp add: setTextureUnitPool_def)
    show "nextShader (setTextureUnitPool this name u g) = nextShader g"
      using Some by (simp add: setTextureUnitPool_def)
  qed
  then show ?thesis
    using Some by (simp add: getTextureUnit_def Let_def kept_refl split: option.split)
qed

lemma kept_record_texture: "kept g (snd (record_texture this textureunit texture g))"
  by (auto simp: record_texture_def Let_def kept_refl split: option.split
      intro!: kept_update [where this = this])

lemma kept_TemporaryAttacher:
  assumes body: "\<And>g. kept g (snd (body g))"
  shows "kept g (snd (TemporaryAttacher this body g))"
proof -
  obtain r1 g1 where a: "attach this True g = (r1, g1)" by (cases "attach this True g")
  have k1: "kept g g1" using kept_attach [of g this True] a by simp
  obtain r2 g2 where b: "body g1 = (r2, g2)" by (cases "body g1")
  have k2: "kept g1 g2" using body [of g1] b by simp
  obtain r3 g3 where c: "(case currentShader g of Some p \<Rightarrow> attach p False g2 | None \<Rightarrow> detach g2) = (r3, g3)"
    by (cases "case currentShader g of Some p \<Rightarrow> attach p False g2 | None \<Rightarrow> detach g2")
  have "g3 = snd (case currentShader g of Some p \<Rightarrow> attach p False g2 | None \<Rightarrow> detach g2)"
    using c by simp
  then have k3: "kept g2 g3"
    by (cases "currentShader g") (simp_all add: kept_attach kept_detach)
  have k: "kept g g3" by (rule kept_trans [OF kept_trans [OF k1 k2] k3])
  show ?thesis
    using a b c k1 k
    by (cases r1; cases r3) (simp_all add: TemporaryAttacher_def)
qed

lemma kept_glUniform: "kept g (glUniform c g)"
  by (rule kept_same_books) (simp add: same_books_def glUniform_def)

lemma kept_sendFloat: "kept g (snd (sendFloat this name vsize vec count g))"
  unfolding sendFloat_def
proof (rule kept_TemporaryAttacher)
  fix g :: Graphics
  obtain r g1 where l: "getUniformLocation this name False g = (r, g1)"
    by (cases "getUniformLocation this name False g")
  have k1: "kept g g1" using kept_getUniformLocation [of g this name False] l by simp
  have k2: "kept g (glUniform c g1)" for c by (rule kept_trans [OF k1 kept_glUniform])
  show "kept g (snd (sendFloat_body this name vsize vec count g))"
    using l k1 k2 by (cases r) (simp_all add: sendFloat_body_def)
qed

lemma kept_sendMatrix: "kept g (snd (sendMatrix this name msize m count g))"
  unfolding sendMatrix_def
proof (rule kept_TemporaryAttacher)
  fix g :: Graphics
  obtain r g1 where l: "getUniformLocation this name False g = (r, g1)"
    by (cases "getUniformLocation this name False g")
  have k1: "kept g g1" using kept_getUniformLocation [of g this name False] l by simp
  have k2: "kept g (glUniform c g1)" for c by (rule kept_trans [OF k1 kept_glUniform])
  show "kept g (snd (sendMatrix_body this name msize m count g))"
    using l k1 k2 by (cases r) (simp_all add: sendMatrix_body_def)
qed

lemma kept_sendTexture: "kept g (snd (sendTexture this name texture g))"
  unfolding sendTexture_def
proof (rule kept_TemporaryAttacher)
  fix g :: Graphics
  obtain r g1 where l: "getUniformLocation this name False g = (r, g1)"
    by (cases "getUniformLocation this name False g")
  have k1: "kept g g1" using kept_getUniformLocation [of g this name False] l by simp
  obtain r2 g2 where u: "getTextureUnit this name g1 = (r2, g2)"
    by (cases "getTextureUnit this name g1")
  have k2: "kept g g2"
    using kept_trans [OF k1 kept_getTextureUnit [of g1 this name]] u by simp
  have k5: "kept g (snd (record_texture this textureunit texture
      ((glUniform (Uniform1i location textureunit)
         (g2\<lparr>ctx := bindTextureToUnit texture textureunit False (ctx g2)\<rparr>))
        \<lparr>ctx := setActiveTextureUnit 0 (ctx (glUniform (Uniform1i location textureunit)
         (g2\<lparr>ctx := bindTextureToUnit texture textureunit False (ctx g2)\<rparr>)))\<rparr>)))"
    for location textureunit
    by (rule kept_trans [OF kept_trans [OF k2 kept_same_books] kept_record_texture])
       (simp add: same_books_def glUniform_def)
  show "kept g (snd (case getUniformLocation this name False g of
         (Inl e, g1) \<Rightarrow> (Inl e, g1)
       | (Inr location, g1) \<Rightarrow>
           (case getTextureUnit this name g1 of
              (Inl e, g2) \<Rightarrow> (Inl e, g2)
            | (Inr textureunit, g2) \<Rightarrow>
                (let g3 = g2\<lparr>ctx := bindTextureToUnit texture textureunit False (ctx g2)\<rparr>;
                     g4 = glUniform (Uniform1i location textureunit) g3;
                     g5 = g4\<lparr>ctx := setActiveTextureUnit 0 (ctx g4)\<rparr>
                 in record_texture this textureunit texture g5))))"
    using l u k1 k2
    by (cases r; cases r2) (simp_all add: Let_def k5)
qed

lemma kept_hasUniform: "kept g (snd (hasUniform this name g))"
  using kept_getUniformLocation [of g this name True]
  by (auto simp: hasUniform_def split: prod.split sum.split)

lemma kept_createProgram: "kept g (snd (createProgram this shaderids g))"
  by (simp add: createProgram_def Let_def kept_setProgram split: option.split)

lemma kept_loadVolatile: "kept g (snd (loadVolatile this g))"
proof (cases "shaders g this")
  case None
  then show ?thesis by (simp add: loadVolatile_def kept_refl)
next
  case (Some sh)
  let ?g1 = "clearActiveTextureUnits this g"
  have k1: "kept g ?g1" by (rule kept_clearActiveTextureUnits)
  show ?thesis
  proof (cases "compile_sources (driver ?g1) (sources_list (shaderSources sh))")
    case (Inl e)
    then show ?thesis using Some k1 by (simp add: loadVolatile_def Let_def)
  next
    case (Inr shaderids)
    obtain r g2 where cp: "createProgram this shaderids ?g1 = (r, g2)"
      by (cases "createProgram this shaderids ?g1")
    have k2: "kept g g2"
      using kept_trans [OF k1 kept_createProgram [of ?g1 this shaderids]] cp by simp
    have k3: "kept g (snd (attach this False (g2\<lparr>currentShader := None\<rparr>)))"
      by (rule kept_trans [OF kept_trans [OF k2 kept_same_books] kept_attach])
         (simp add: same_books_def)
    show ?thesis
      using Some Inr cp k1 k2 k3
      by (cases r) (auto simp: loadVolatile_def Let_def split: prod.split sum.split)
  qed
qed

lemma kept_unloadVolatile: "kept g (snd (unloadVolatile this g))"
  by (auto simp: unloadVolatile_def Let_def kept_refl glUseProgram_def split: option.split
      intro!: kept_update [where this = this])

lemma kept_Shader_delete: "kept g (snd (Shader_delete this g))"
proof -
  obtain r1 g1 where d: "(if currentShader g = Some this then detach g else (Inr (), g)) = (r1, g1)"
    by (cases "if currentShader g = Some this then detach g else (Inr (), g)")
  have "g1 = snd (if currentShader g = Some this then detach g else (Inr (), g))"
    using d by simp
  then have k1: "kept g g1" by (simp add: kept_detach kept_refl)
  obtain r2 g2 where u: "unloadVolatile this g1 = (r2, g2)" by (cases "unloadVolatile this g1")
  have k2: "kept g g2" using kept_trans [OF k1 kept_unloadVolatile [of g1 this]] u by simp
  have k3: "kept g (g2\<lparr>shaders := (shaders g2)(this := None)\<rparr>)"
    by (rule kept_trans [OF k2]) (rule kept_remove, simp_all)
  show ?thesis
    unfolding Shader_delete_def d
    using k1 k2 k3 u by (cases r1; cases r2) simp_all
qed

lemma kept_Shader_new: "kept g (snd (Shader_new sources g))"
proof (cases "sources_list sources = []")
  case True
  then show ?thesis by (simp add: Shader_new_def kept_refl)
next
  case False
  define g1 where "g1 = g\<lparr>maxTextureUnits := nat (max (getNumTextureUnits (driver g) - 1) 0)\<rparr>"
  define g2 where "g2 = (if length (textureCounters g1) < maxTextureUnits g1
                      then g1\<lparr>textureCounters := textureCounters g1 @
                              replicate (maxTextureUnits g1 - length (textureCounters g1)) 0\<rparr>
                      else g1)"
  have k2: "kept g g2" by (rule kept_shaders_eq) (simp_all add: g2_def g1_def)
  show ?thesis
  proof (cases "checkCodeCompleteness (defaultSources g2) sources")
    case (Inl e)
    then show ?thesis using False k2
      by (simp add: Shader_new_def Let_def g1_def [symmetric] g2_def [symmetric])
  next
    case (Inr sources1)
    define this where "this = nextShader g2"
    define sh0 where "sh0 = \<lparr>shaderSources = sources1, program = 0, uniforms = Map.empty,
                                   textureUnitPool = Map.empty, activeTextureUnits = []\<rparr>"
    define g3 where "g3 = g2\<lparr>shaders := (shaders g2)(this \<mapsto> sh0), nextShader := Suc this\<rparr>"
    have k3: "kept g2 g3" by (auto simp: kept_def g3_def this_def)
    obtain r g4 where lv: "loadVolatile this g3 = (r, g4)" by (cases "loadVolatile this g3")
    have k4: "kept g g4"
      using kept_trans [OF kept_trans [OF k2 k3] kept_loadVolatile [of g3 this]] lv by simp
    have k5: "kept g (g4\<lparr>shaders := (shaders g4)(this := None)\<rparr>)"
      by (rule kept_trans [OF k4]) (rule kept_remove, simp_all)
    have "kept g (snd (case loadVolatile this g3 of
                         (Inl e, g4) \<Rightarrow> (Inl e, g4\<lparr>shaders := (shaders g4)(this := None)\<rparr>)
                       | (Inr _, g4) \<Rightarrow> (Inr this, g4)))"
      using lv k4 k5 by (cases r) simp_all
    then show ?thesis
      using False Inr
      by (simp add: Shader_new_def Let_def g1_def [symmetric] g2_def [symmetric]
          this_def [symmetric] sh0_def [symmetric] g3_def [symmetric])
  qed
qed

lemma kept_exec: "kept g (exec c g)"
proof (cases c)
  case (SetDefaultSources sources)
  then show ?thesis by (simp add: setDefaultSources_def kept_def)
next
  case (SetDefaultShader d)
  then show ?thesis by (simp add: kept_def)
next
  case (DriverAnswers drv)
  then show ?thesis by (simp add: kept_def)
qed (simp_all add: kept_Shader_new kept_Shader_delete kept_loadVolatile
      kept_unloadVolatile kept_attach kept_detach kept_getUniformLocation
      kept_hasUniform kept_sendFloat kept_sendMatrix kept_sendTexture
      kept_getTextureUnit)

lemma run_snoc: "run (cs @ [c]) g = exec c (run cs g)"
  by (simp add: run_def)

lemma kept_run: "kept g (run cs g)"
proof (induction cs rule: rev_induct)
  case Nil
  show ?case by (simp add: run_def kept_refl)
next
  case (snoc c cs)
  show ?case unfolding run_snoc by (rule kept_trans [OF snoc kept_exec])
qed


lemma getTextureUnit_assigned:
  "shaders g this = Some sh \<Longrightarrow> textureUnitPool sh name = Some u \<Longrightarrow>
   getTextureUnit this name g = (Inr u, g)"
  by (simp add: getTextureUnit_def)

lemma getTextureUnit_pool:
  assumes live: "shaders g this = Some sh" and res: "getTextureUnit this name g = (Inr u, g1)"
  shows "\<exists>sh1. shaders g1 this = Some sh1 \<and> textureUnitPool sh1 name = Some u"
  using assms
  by (auto simp: getTextureUnit_def Let_def setTextureUnitPool_def
      split: option.splits if_splits)

lemma getTextureUnit_positive:
  assumes wf: "wellformed b g" and live: "shaders g this = Some sh"
    and res: "getTextureUnit this name g = (Inr u, g1)"
  shows "1 \<le> u"
proof (cases "textureUnitPool sh name")
  case None
  then show ?thesis using live res
    by (auto simp: getTextureUnit_def Let_def split: if_splits)
next
  case (Some v)
  then have "u = v" using live res by (simp add: getTextureUnit_def)
  then show ?thesis using wf live Some by (auto simp: wellformed_def sized_def)
qed

lemma getTextureUnit_lifetime:
  assumes wf: "wellformed b g" and live: "shaders g this = Some sh"
    and res: "getTextureUnit this name g = (Inr u, g1)"
    and alive: "shaders (run cs g1) this \<noteq> None"
  shows "getTextureUnit this name (run cs g1) = (Inr u, run cs g1)"
proof -
  obtain sh1 where sh1: "shaders g1 this = Some sh1" "textureUnitPool sh1 name = Some u"
    using getTextureUnit_pool [OF live res] by blast
  have "wellformed b g1" using wellformed_getTextureUnit [OF wf, of this name] res by simp
  then have lt: "this < nextShader g1" using sh1 by (auto simp: wellformed_def sized_def)
  obtain sh' where sh': "shaders (run cs g1) this = Some sh'" using alive by auto
  have "kept g1 (run cs g1)" by (rule kept_run)
  then obtain sh2 where "shaders g1 this = Some sh2" "textureUnitPool sh2 \<subseteq>\<^sub>m textureUnitPool sh'"
    using sh' lt unfolding kept_def by blast
  then have "textureUnitPool sh' name = Some u"
    using sh1 by (auto simp: map_le_def dom_def)
  then show ?thesis using sh' by (rule getTextureUnit_assigned [rotated])
qed

text \<open>
  C1. In a reachable state, for a shader that is alive: \<open>getTextureUnit\<close> returns the unit
  already assigned to the name and changes nothing; otherwise it claims the lowest index with
  a zero global counter, plus one; otherwise the lowest index at which the shader's own
  \<open>activeTextureUnits\<close> is zero, plus one; otherwise it throws \<open>NoMoreTextureUnits\<close>.
  Whatever it returns is at least 1, and every later call for that name returns the same
  unit, after any calls on the class, as long as the shader is alive.
\<close>

theorem getTextureUnit_algorithm:
  assumes r: "reachable g" and live: "shaders g this = Some sh"
  shows "(\<forall>u. textureUnitPool sh name = Some u \<longrightarrow> getTextureUnit this name g = (Inr u, g))
   \<and> (textureUnitPool sh name = None \<longrightarrow> 0 \<in> set (textureCounters g) \<longrightarrow>
        getTextureUnit this name g =
          (Inr (int (LEAST i. i < length (textureCounters g) \<and> textureCounters g ! i = 0) + 1),
           setTextureUnitPool this name
             (int (LEAST i. i < length (textureCounters g) \<and> textureCounters g ! i = 0) + 1) g))
   \<and> (textureUnitPool sh name = None \<longrightarrow> 0 \<notin> set (textureCounters g) \<longrightarrow>
        0 \<in> set (activeTextureUnits sh) \<longrightarrow>
        getTextureUnit this name g =
          (Inr (int (LEAST i. i < length (activeTextureUnits sh) \<and> activeTextureUnits sh ! i = 0) + 1),
           setTextureUnitPool this name
             (int (LEAST i. i < length (activeTextureUnits sh) \<and> activeTextureUnits sh ! i = 0) + 1) g))
   \<and> (textureUnitPool sh name = None \<longrightarrow> 0 \<notin> set (textureCounters g) \<longrightarrow>
        0 \<notin> set (activeTextureUnits sh) \<longrightarrow>
        getTextureUnit this name g = (Inl NoMoreTextureUnits, g))
   \<and> (\<forall>u g1. getTextureUnit this name g = (Inr u, g1) \<longrightarrow>
        1 \<le> u
      \<and> (\<forall>cs. shaders (run cs g1) this \<noteq> None \<longrightarrow>
            getTextureUnit this name (run cs g1) = (Inr u, run cs g1)))"
proof -
  have wf: "wellformed False g" by (rule reachable_wellformed [OF r])
  have 1: "\<forall>u. textureUnitPool sh name = Some u \<longrightarrow> getTextureUnit this name g = (Inr u, g)"
    using live by (simp add: getTextureUnit_assigned)
  have 2: "getTextureUnit this name g =
          (Inr (int (LEAST i. i < length (textureCounters g) \<and> textureCounters g ! i = 0) + 1),
           setTextureUnitPool this name
             (int (LEAST i. i < length (textureCounters g) \<and> textureCounters g ! i = 0) + 1) g)"
    if "textureUnitPool sh name = None" "0 \<in> set (textureCounters g)"
    using that live std_find_less_iff [of 0 "textureCounters g"]
    by (simp add: getTextureUnit_def Let_def std_find_least [symmetric])
  have 3: "getTextureUnit this name g =
          (Inr (int (LEAST i. i < length (activeTextureUnits sh) \<and> activeTextureUnits sh ! i = 0) + 1),
           setTextureUnitPool this name
             (int (LEAST i. i < length (activeTextureUnits sh) \<and> activeTextureUnits sh ! i = 0) + 1) g)"
    if "textureUnitPool sh name = None" "0 \<notin> set (textureCounters g)"
       "0 \<in> set (activeTextureUnits sh)"
    using that live std_find_less_iff [of 0 "textureCounters g"]
      std_find_less_iff [of 0 "activeTextureUnits sh"]
    by (simp add: getTextureUnit_def Let_def std_find_least [symmetric])
  have 4: "getTextureUnit this name g = (Inl NoMoreTextureUnits, g)"
    if "textureUnitPool sh name = None" "0 \<notin> set (textureCounters g)"
       "0 \<notin> set (activeTextureUnits sh)"
    using that live std_find_less_iff [of 0 "textureCounters g"]
      std_find_less_iff [of 0 "activeTextureUnits sh"]
    by (simp add: getTextureUnit_def Let_def)
  have 5: "\<forall>u g1. getTextureUnit this name g = (Inr u, g1) \<longrightarrow>
        1 \<le> u
      \<and> (\<forall>cs. shaders (run cs g1) this \<noteq> None \<longrightarrow>
            getTextureUnit this name (run cs g1) = (Inr u, run cs g1))"
    using getTextureUnit_positive [OF wf live] getTextureUnit_lifetime [OF wf live]
    by blast
  from 1 2 3 4 5 show ?thesis by blast
qed

lemma example_driver_fields:
  "getNumTextureUnits example_driver = 3"
  "glCreateProgram example_driver = 3"
  "linkLog example_driver shaderids = None"
  "glGetUniformLocation example_driver p name = (if name = ''missing'' then -1 else 5)"
  "compileCode example_driver TYPE_VERTEX ''v'' = Inr 1"
  "compileCode example_driver TYPE_PIXEL ''p'' = Inr 2"
  by (simp_all add: example_driver_def compileCode_def)

lemma replicate_two: "replicate 2 x = [x, x]"
  by (simp add: numeral_2_eq_2)

lemma sources_list_example:
  "sources_list example_sources = [(TYPE_VERTEX, ''v''), (TYPE_PIXEL, ''p'')]"
  by (simp add: sources_list_def shader_types_def example_sources_def List.map_filter_simps)

lemma check_example:
  "checkCodeCompleteness Map.empty example_sources = Inr example_sources"
  by (simp add: checkCodeCompleteness_def example_sources_def)

lemma new_one_shader: "Shader_new example_sources (initial example_driver) = (Inr 0, one_shader)"
  by (simp add: Shader_new_def sources_list_example Let_def initial_def check_example
      loadVolatile_def clearActiveTextureUnits_def createProgram_def setProgram_def
      one_shader_def example_shader_def example_driver_fields replicate_two)

lemma new_two_shaders: "Shader_new example_sources one_shader = (Inr 1, two_shaders)"
  by (simp add: Shader_new_def sources_list_example Let_def check_example
      loadVolatile_def clearActiveTextureUnits_def createProgram_def setProgram_def
      one_shader_def two_shaders_def example_shader_def example_driver_fields replicate_two
      fun_upd_twist)

lemma reachable_one_shader: "reachable one_shader"
  using reachable.step [OF reachable.start, of "New example_sources" example_driver]
  by (simp add: new_one_shader)

lemma reachable_two_shaders: "reachable two_shaders"
  using reachable.step [OF reachable_one_shader, of "New example_sources"]
  by (simp add: new_two_shaders)










lemma sendTexture_first:
  "sendTexture 0 ''texA'' 7 two_shaders = (Inr (), exec (SendTexture 0 ''texA'' 7) two_shaders)
   \<and> textureCounters (exec (SendTexture 0 ''texA'' 7) two_shaders) = [1, 0]
   \<and> shaders (exec (SendTexture 0 ''texA'' 7) two_shaders) 1 = Some example_shader"
  by (simp add: sendTexture_def TemporaryAttacher_def attach_def detach_def glUseProgram_def
      getUniformLocation_def setUniforms_def getTextureUnit_def setTextureUnitPool_def
      record_texture_def glUniform_def Let_def two_shaders_def example_shader_def
      example_driver_fields bindTextureToUnit_def setActiveTextureUnit_def int32_def)






theorem getTextureUnit_algorithm_witness:
  "reachable one_shader \<and> shaders one_shader 0 = Some example_shader
   \<and> textureUnitPool example_shader ''tex'' = None \<and> 0 \<in> set (textureCounters one_shader)
   \<and> getTextureUnit 0 ''tex'' one_shader =
          (Inr (int (LEAST i. i < length (textureCounters one_shader)
                        \<and> textureCounters one_shader ! i = 0) + 1),
           setTextureUnitPool 0 ''tex''
             (int (LEAST i. i < length (textureCounters one_shader)
                        \<and> textureCounters one_shader ! i = 0) + 1) one_shader)
   \<and> getTextureUnit 0 ''tex'' one_shader = (Inr 1, setTextureUnitPool 0 ''tex'' 1 one_shader)
   \<and> getTextureUnit 0 ''tex''
        (run [UnloadVolatile 0, LoadVolatile 0] (setTextureUnitPool 0 ''tex'' 1 one_shader))
       = (Inr 1, run [UnloadVolatile 0, LoadVolatile 0] (setTextureUnitPool 0 ''tex'' 1 one_shader))"
proof -
  have live: "shaders one_shader 0 = Some example_shader" by (simp add: one_shader_def)
  have p: "textureUnitPool example_shader ''tex'' = None" by (simp add: example_shader_def)
  have z: "0 \<in> set (textureCounters one_shader)" by (simp add: one_shader_def)
  have e: "getTextureUnit 0 ''tex'' one_shader = (Inr 1, setTextureUnitPool 0 ''tex'' 1 one_shader)"
    by (simp add: getTextureUnit_def one_shader_def example_shader_def)
  have a: "shaders (run [UnloadVolatile 0, LoadVolatile 0]
             (setTextureUnitPool 0 ''tex'' 1 one_shader)) 0 \<noteq> None"
    using kept_run [of "setTextureUnitPool 0 ''tex'' 1 one_shader" "[UnloadVolatile 0, LoadVolatile 0]"]
    by (simp add: run_def unloadVolatile_def loadVolatile_def Let_def setTextureUnitPool_def
        one_shader_def example_shader_def clearActiveTextureUnits_def createProgram_def
        setProgram_def sources_list_example example_driver_fields split: sum.split prod.split)
  note inst = getTextureUnit_algorithm [OF reachable_one_shader live, of "''tex''"]
  from inst p z have l: "getTextureUnit 0 ''tex'' one_shader =
          (Inr (int (LEAST i. i < length (textureCounters one_shader)
                        \<and> textureCounters one_shader ! i = 0) + 1),
           setTextureUnitPool 0 ''tex''
             (int (LEAST i. i < length (textureCounters one_shader)
                        \<and> textureCounters one_shader ! i = 0) + 1) one_shader)"
    by blast
  from inst e a have i: "getTextureUnit 0 ''tex''
        (run [UnloadVolatile 0, LoadVolatile 0] (setTextureUnitPool 0 ''tex'' 1 one_shader))
       = (Inr 1, run [UnloadVolatile 0, LoadVolatile 0] (setTextureUnitPool 0 ''tex'' 1 one_shader))"
    by blast
  show ?thesis using reachable_one_shader live p z l e i by blast
qed

lemmas send_defs = sendTexture_def TemporaryAttacher_def attach_def detach_def glUseProgram_def
      getUniformLocation_def setUniforms_def getTextureUnit_def setTextureUnitPool_def
      record_texture_def glUniform_def Let_def bindTextureToUnit_def setActiveTextureUnit_def
      rebind_textures_def

lemma send_texture_sent: "sendTexture 0 ''texA'' 7 two_shaders = (Inr (), texture_sent)"
  by (simp add: send_defs two_shaders_def example_shader_def texture_sent_def bound_shader_def
      example_driver_fields fun_upd_twist int32_def)

lemma reachable_texture_sent: "reachable texture_sent"
  using reachable.step [OF reachable_two_shaders, of "SendTexture 0 ''texA'' 7"]
  by (simp add: send_texture_sent)













lemma rebind_textures_zero: "rebind_textures (replicate n 0) c = c"
proof -
  have "foldl (\<lambda>c i. if replicate n (0::GLuint) ! i > 0
                     then bindTextureToUnit (replicate n 0 ! i) (int i + 1) False c else c)
          c [0..<k] = c" if "k \<le> n" for k
    using that by (induction k) simp_all
  from this [of n] show ?thesis by (simp add: rebind_textures_def)
qed

lemma currentShader_unloadVolatile:
  "currentShader (snd (unloadVolatile this g)) = currentShader g"
  by (simp add: unloadVolatile_def Let_def glUseProgram_def split: option.split)

lemma driver_unloadVolatile:
  "driver (snd (unloadVolatile this g)) = driver g"
  by (simp add: unloadVolatile_def Let_def glUseProgram_def split: option.split)

lemma createProgram_effect:
  assumes "shaders g this = Some sh"
  shows "snd (createProgram this shaderids g)
           = g\<lparr>shaders := (shaders g)(this \<mapsto> sh\<lparr>program := glCreateProgram (driver g)\<rparr>)\<rparr>"
    and "fst (createProgram this shaderids g) = Inr () \<longleftrightarrow>
           glCreateProgram (driver g) \<noteq> 0 \<and> linkLog (driver g) shaderids = None"
  using assms by (auto simp: createProgram_def Let_def setProgram_def split: option.split)

lemma currentShader_loadVolatile:
  "currentShader (snd (loadVolatile this g)) = currentShader g"
proof (cases "shaders g this")
  case None
  then show ?thesis by (simp add: loadVolatile_def)
next
  case (Some sh)
  let ?g1 = "clearActiveTextureUnits this g"
  let ?sh1 = "sh\<lparr>activeTextureUnits := replicate (maxTextureUnits g) 0\<rparr>"
  have g1: "?g1 = g\<lparr>shaders := (shaders g)(this \<mapsto> ?sh1)\<rparr>"
    using Some by (simp add: clearActiveTextureUnits_def)
  have live1: "shaders ?g1 this = Some ?sh1" by (simp add: g1)
  show ?thesis
  proof (cases "compile_sources (driver ?g1) (sources_list (shaderSources sh))")
    case (Inl e)
    have "currentShader ?g1 = currentShader g" by (simp add: g1)
    then show ?thesis using Some Inl by (simp add: loadVolatile_def Let_def)
  next
    case (Inr shaderids)
    obtain r g2 where cp: "createProgram this shaderids ?g1 = (r, g2)"
      by (cases "createProgram this shaderids ?g1")
    have g2: "g2 = ?g1\<lparr>shaders := (shaders ?g1)(this \<mapsto>
                ?sh1\<lparr>program := glCreateProgram (driver ?g1)\<rparr>)\<rparr>"
      using createProgram_effect(1) [OF live1, of shaderids] cp by simp
    have c2: "currentShader g2 = currentShader g" by (simp add: g2 g1)
    have a: "currentShader (snd (attach this False (g2\<lparr>currentShader := None\<rparr>))) = Some this"
      by (simp add: attach_def Let_def g2 g1 glUseProgram_def)
    have c1: "currentShader ?g1 = currentShader g" by (simp add: g1)
    show ?thesis
      using Some Inr cp c1 c2 a
      by (cases r) (auto simp: loadVolatile_def Let_def split: prod.split sum.split)
  qed
qed

lemma loadVolatile_success:
  assumes ok: "loadVolatile this g = (Inr True, g2)" and live: "shaders g this = Some sh"
    and cur: "currentShader g = Some this"
  shows "\<exists>sh2. shaders g2 this = Some sh2 \<and> program sh2 = glCreateProgram (driver g)
     \<and> program sh2 \<noteq> 0 \<and> usedProgram (ctx g2) = program sh2
     \<and> activeTextureUnit (ctx g2) = 0"
proof -
  let ?g1 = "clearActiveTextureUnits this g"
  let ?sh1 = "sh\<lparr>activeTextureUnits := replicate (maxTextureUnits g) 0\<rparr>"
  have g1: "?g1 = g\<lparr>shaders := (shaders g)(this \<mapsto> ?sh1)\<rparr>"
    using live by (simp add: clearActiveTextureUnits_def)
  have live1: "shaders ?g1 this = Some ?sh1" by (simp add: g1)
  obtain shaderids where cs:
    "compile_sources (driver ?g1) (sources_list (shaderSources sh)) = Inr shaderids"
    using ok live
    by (cases "compile_sources (driver ?g1) (sources_list (shaderSources sh))")
       (simp_all add: loadVolatile_def Let_def)
  have ne: "shaderids \<noteq> []" using ok live cs by (auto simp: loadVolatile_def Let_def)
  obtain r ga where cp: "createProgram this shaderids ?g1 = (r, ga)"
    by (cases "createProgram this shaderids ?g1")
  have r: "r = Inr ()" using ok live cs ne cp by (cases r) (simp_all add: loadVolatile_def Let_def)
  let ?p = "glCreateProgram (driver g)"
  have ga: "ga = ?g1\<lparr>shaders := (shaders ?g1)(this \<mapsto> ?sh1\<lparr>program := ?p\<rparr>)\<rparr>"
    using createProgram_effect(1) [OF live1, of shaderids] cp by (simp add: g1)
  have p0: "?p \<noteq> 0"
    using createProgram_effect(2) [OF live1, of shaderids] cp r by (simp add: g1)
  have cura: "currentShader ga = Some this" using cur by (simp add: ga g1)
  have "attach this False (ga\<lparr>currentShader := None\<rparr>) = (Inr (), g2)"
    using ok live cs ne cp r cura
    by (cases "attach this False (ga\<lparr>currentShader := None\<rparr>)")
       (auto simp: loadVolatile_def Let_def split: sum.splits)
  then have "g2 = (glUseProgram ?p (ga\<lparr>currentShader := None\<rparr>))
      \<lparr>currentShader := Some this,
        ctx := setActiveTextureUnit 0 (ctx (glUseProgram ?p (ga\<lparr>currentShader := None\<rparr>)))\<rparr>"
    by (auto simp: attach_def Let_def ga g1 rebind_textures_zero glUseProgram_def)
  then show ?thesis using p0
    by (simp add: ga g1 glUseProgram_def setActiveTextureUnit_def)
qed

text \<open>
  C10. \<open>unloadVolatile\<close> followed by \<open>loadVolatile\<close> on a shader leaves \<open>currentShader\<close>
  what it was, whether the shader is the current one or not and whether loading succeeds or
  throws. When the shader is the current one and loading succeeds, it is the current shader
  afterwards, its program is the one \<open>glCreateProgram\<close> has just returned (not 0), and
  that program is the one in use in the context.
\<close>

theorem volatile_reload_keeps_current:
  "currentShader (snd (loadVolatile this (snd (unloadVolatile this g)))) = currentShader g
   \<and> (\<forall>sh g2. shaders g this = Some sh \<longrightarrow> currentShader g = Some this \<longrightarrow>
         loadVolatile this (snd (unloadVolatile this g)) = (Inr True, g2) \<longrightarrow>
         currentShader g2 = Some this
       \<and> (\<exists>sh2. shaders g2 this = Some sh2 \<and> program sh2 = glCreateProgram (driver g)
             \<and> program sh2 \<noteq> 0 \<and> usedProgram (ctx g2) = program sh2))"
proof -
  let ?g1 = "snd (unloadVolatile this g)"
  have 1: "currentShader (snd (loadVolatile this ?g1)) = currentShader g"
    by (simp add: currentShader_loadVolatile currentShader_unloadVolatile)
  have 2: "currentShader g2 = Some this
       \<and> (\<exists>sh2. shaders g2 this = Some sh2 \<and> program sh2 = glCreateProgram (driver g)
             \<and> program sh2 \<noteq> 0 \<and> usedProgram (ctx g2) = program sh2)"
    if live: "shaders g this = Some sh" and cur: "currentShader g = Some this"
      and ok: "loadVolatile this ?g1 = (Inr True, g2)" for sh g2
  proof -
    have "shaders ?g1 this \<noteq> None"
      using live by (simp add: unloadVolatile_def Let_def glUseProgram_def)
    then obtain sh1 where live1: "shaders ?g1 this = Some sh1" by auto
    have cur1: "currentShader ?g1 = Some this" using cur by (simp add: currentShader_unloadVolatile)
    have "currentShader g2 = Some this" using 1 ok cur by simp
    then show ?thesis
      using loadVolatile_success [OF ok live1 cur1] by (auto simp: driver_unloadVolatile)
  qed
  from 1 2 show ?thesis by blast
qed

lemma attach_one_shader: "attach 0 False one_shader = (Inr (), attached_shader)"
  by (simp add: attach_def Let_def one_shader_def example_shader_def attached_shader_def
      glUseProgram_def rebind_textures_def setActiveTextureUnit_def)

lemma reload_attached:
  "fst (loadVolatile 0 (snd (unloadVolatile 0 attached_shader))) = Inr True"
  by (simp add: unloadVolatile_def loadVolatile_def Let_def attached_shader_def one_shader_def
      example_shader_def glUseProgram_def clearActiveTextureUnits_def sources_list_example
      example_driver_fields createProgram_def setProgram_def attach_def)

theorem volatile_reload_keeps_current_witness:
  "shaders attached_shader 0 = Some example_shader \<and> currentShader attached_shader = Some 0
   \<and> fst (loadVolatile 0 (snd (unloadVolatile 0 attached_shader))) = Inr True
   \<and> currentShader (snd (loadVolatile 0 (snd (unloadVolatile 0 attached_shader)))) = Some 0
   \<and> usedProgram (ctx (snd (unloadVolatile 0 attached_shader))) = 0
   \<and> usedProgram (ctx (snd (loadVolatile 0 (snd (unloadVolatile 0 attached_shader))))) = 3"
proof -
  have live: "shaders attached_shader 0 = Some example_shader"
    and cur: "currentShader attached_shader = Some 0"
    by (simp_all add: attached_shader_def one_shader_def)
  have ok: "loadVolatile 0 (snd (unloadVolatile 0 attached_shader))
      = (Inr True, snd (loadVolatile 0 (snd (unloadVolatile 0 attached_shader))))"
    using reload_attached
    by (cases "loadVolatile 0 (snd (unloadVolatile 0 attached_shader))") simp
  have un: "usedProgram (ctx (snd (unloadVolatile 0 attached_shader))) = 0"
    by (simp add: unloadVolatile_def Let_def attached_shader_def one_shader_def
        example_shader_def glUseProgram_def)
  from volatile_reload_keeps_current [of 0 attached_shader] live cur ok
  have "currentShader (snd (loadVolatile 0 (snd (unloadVolatile 0 attached_shader)))) = Some 0
     \<and> usedProgram (ctx (snd (loadVolatile 0 (snd (unloadVolatile 0 attached_shader))))) = 3"
    by (auto simp: attached_shader_def one_shader_def example_driver_fields)
  then show ?thesis using live cur reload_attached un by blast
qed

lemma compile_sources_length:
  "compile_sources drv srcs = Inr shaderids \<Longrightarrow> length shaderids = length srcs"
  by (induction srcs arbitrary: shaderids) (auto split: sum.splits)

lemma compile_sources_error:
  "compile_sources drv srcs = Inl e \<Longrightarrow>
   e = UnknownShaderType \<or> (\<exists>t. e = ShadersNotSupported t)
   \<or> (\<exists>t. e = CannotCreateShaderObject t) \<or> (\<exists>t errorlog. e = CannotCompile t errorlog)"
  by (induction srcs) (auto simp: compileCode_def Let_def split: sum.splits if_splits option.splits)

lemma loadVolatile_fst:
  assumes live: "shaders g this = Some sh"
  shows "fst (loadVolatile this g) =
     (case compile_sources (driver g) (sources_list (shaderSources sh)) of
        Inl e \<Rightarrow> Inl e
      | Inr shaderids \<Rightarrow>
          if shaderids = [] then Inl NoValidSourceCode
          else if glCreateProgram (driver g) = 0 then Inl CannotCreateProgram
          else (case linkLog (driver g) shaderids of
                  Some warnings \<Rightarrow> Inl (CannotLink warnings)
                | None \<Rightarrow> Inr True))"
proof -
  let ?g1 = "clearActiveTextureUnits this g"
  let ?sh1 = "sh\<lparr>activeTextureUnits := replicate (maxTextureUnits g) 0\<rparr>"
  have g1: "?g1 = g\<lparr>shaders := (shaders g)(this \<mapsto> ?sh1)\<rparr>"
    using live by (simp add: clearActiveTextureUnits_def)
  have d1: "driver ?g1 = driver g" by (simp add: g1)
  have live1: "shaders ?g1 this = Some ?sh1" by (simp add: g1)
  show ?thesis
  proof (cases "compile_sources (driver g) (sources_list (shaderSources sh))")
    case (Inl e)
    then show ?thesis using live d1 by (simp add: loadVolatile_def Let_def)
  next
    case (Inr shaderids)
    obtain r g2 where cp: "createProgram this shaderids ?g1 = (r, g2)"
      by (cases "createProgram this shaderids ?g1")
    have g2: "g2 = ?g1\<lparr>shaders := (shaders ?g1)(this \<mapsto>
                ?sh1\<lparr>program := glCreateProgram (driver ?g1)\<rparr>)\<rparr>"
      using createProgram_effect(1) [OF live1, of shaderids] cp by simp
    have r: "r = (if glCreateProgram (driver g) = 0 then Inl CannotCreateProgram
                  else case linkLog (driver g) shaderids of
                         Some warnings \<Rightarrow> Inl (CannotLink warnings) | None \<Rightarrow> Inr ())"
      using cp d1 by (auto simp: createProgram_def Let_def split: option.splits)
    have a: "fst (attach this False (g2\<lparr>currentShader := None\<rparr>)) = Inr ()"
      by (simp add: attach_def Let_def g2 g1)
    show ?thesis
      using live Inr cp d1 a
      by (auto simp: loadVolatile_def Let_def r split: prod.split sum.split option.split)
  qed
qed

lemma vertex_only_sources:
  assumes "sources TYPE_VERTEX = Some v" "sources TYPE_PIXEL = None" "sources TYPE_MAX_ENUM = None"
  shows "sources_list sources = [(TYPE_VERTEX, v)]"
    and "sources_list (sources(TYPE_PIXEL \<mapsto> p)) = [(TYPE_VERTEX, v), (TYPE_PIXEL, p)]"
    and "checkCodeCompleteness defaults sources =
           (case defaults TYPE_PIXEL of
              None \<Rightarrow> Inl NoDefaultPixelCode
            | Some p \<Rightarrow> Inr (sources(TYPE_PIXEL \<mapsto> p)))"
  using assms
  by (simp_all add: sources_list_def shader_types_def List.map_filter_simps
      checkCodeCompleteness_def split: option.split)

lemma Shader_new_fst:
  assumes ne: "sources_list sources \<noteq> []"
  shows "fst (Shader_new sources g) =
     (case checkCodeCompleteness (defaultSources g) sources of
        Inl e \<Rightarrow> Inl e
      | Inr sources1 \<Rightarrow>
          (case compile_sources (driver g) (sources_list sources1) of
             Inl e \<Rightarrow> Inl e
           | Inr shaderids \<Rightarrow>
               if shaderids = [] then Inl NoValidSourceCode
               else if glCreateProgram (driver g) = 0 then Inl CannotCreateProgram
               else (case linkLog (driver g) shaderids of
                       Some warnings \<Rightarrow> Inl (CannotLink warnings)
                     | None \<Rightarrow> Inr (nextShader g))))"
proof -
  define g1 where "g1 = g\<lparr>maxTextureUnits := nat (max (getNumTextureUnits (driver g) - 1) 0)\<rparr>"
  define g2 where "g2 = (if length (textureCounters g1) < maxTextureUnits g1
                      then g1\<lparr>textureCounters := textureCounters g1 @
                              replicate (maxTextureUnits g1 - length (textureCounters g1)) 0\<rparr>
                      else g1)"
  have f2: "defaultSources g2 = defaultSources g" "driver g2 = driver g"
    "nextShader g2 = nextShader g"
    by (simp_all add: g2_def g1_def)
  show ?thesis
  proof (cases "checkCodeCompleteness (defaultSources g) sources")
    case (Inl e)
    then show ?thesis using ne f2
      by (simp add: Shader_new_def Let_def g1_def [symmetric] g2_def [symmetric])
  next
    case (Inr sources1)
    define this where "this = nextShader g2"
    define sh0 where "sh0 = \<lparr>shaderSources = sources1, program = 0, uniforms = Map.empty,
                                   textureUnitPool = Map.empty, activeTextureUnits = []\<rparr>"
    define g3 where "g3 = g2\<lparr>shaders := (shaders g2)(this \<mapsto> sh0), nextShader := Suc this\<rparr>"
    have live3: "shaders g3 this = Some sh0" by (simp add: g3_def)
    have d3: "driver g3 = driver g" by (simp add: g3_def f2)
    obtain r g4 where lv: "loadVolatile this g3 = (r, g4)" by (cases "loadVolatile this g3")
    have r: "r = (case compile_sources (driver g) (sources_list sources1) of
        Inl e \<Rightarrow> Inl e
      | Inr shaderids \<Rightarrow>
          if shaderids = [] then Inl NoValidSourceCode
          else if glCreateProgram (driver g) = 0 then Inl CannotCreateProgram
          else (case linkLog (driver g) shaderids of
                  Some warnings \<Rightarrow> Inl (CannotLink warnings)
                | None \<Rightarrow> Inr True))"
      using loadVolatile_fst [OF live3, unfolded d3] lv by (simp add: sh0_def)
    have chk: "checkCodeCompleteness (defaultSources g2) sources = Inr sources1"
      using Inr by (simp add: f2)
    have "fst (Shader_new sources g) = (case r of Inl e \<Rightarrow> Inl e | Inr _ \<Rightarrow> Inr this)"
      using ne chk lv
      by (cases r) (simp_all add: Shader_new_def Let_def g1_def [symmetric] g2_def [symmetric]
          this_def [symmetric] sh0_def [symmetric] g3_def [symmetric])
    then show ?thesis
      using Inr by (simp add: r this_def f2 split: sum.split option.split)
  qed
qed

text \<open>
  C7 (as amended). For sources that hold a vertex source only: the constructor throws
  \<open>NoDefaultPixelCode\<close> exactly when no default pixel source is registered; when one is
  registered the vertex source and the default pixel source are compiled and linked, and
  the constructor returns the new shader exactly when the driver compiles both, creates a
  program and links it, and throws the compile or link error otherwise. A default pixel
  source is registered by a \<open>setDefaultSources\<close> that returns; initially there is none.
\<close>

theorem vertex_only_construction:
  assumes "sources TYPE_VERTEX = Some v" and "sources TYPE_PIXEL = None"
    and "sources TYPE_MAX_ENUM = None"
  shows "(fst (Shader_new sources g) = Inl NoDefaultPixelCode) = (defaultSources g TYPE_PIXEL = None)
   \<and> (\<forall>p. defaultSources g TYPE_PIXEL = Some p \<longrightarrow>
         fst (Shader_new sources g) =
           (case compile_sources (driver g) [(TYPE_VERTEX, v), (TYPE_PIXEL, p)] of
              Inl e \<Rightarrow> Inl e
            | Inr shaderids \<Rightarrow>
                if glCreateProgram (driver g) = 0 then Inl CannotCreateProgram
                else (case linkLog (driver g) shaderids of
                        Some warnings \<Rightarrow> Inl (CannotLink warnings)
                      | None \<Rightarrow> Inr (nextShader g))))
   \<and> (fst (setDefaultSources defaults g0) = Inr () \<longrightarrow>
         defaultSources (snd (setDefaultSources defaults g0)) TYPE_PIXEL \<noteq> None)
   \<and> defaultSources (initial drv) TYPE_PIXEL = None"
proof -
  note vs = vertex_only_sources [OF assms]
  have ne: "sources_list sources \<noteq> []" by (simp add: vs(1))
  have B: "fst (Shader_new sources g) =
           (case compile_sources (driver g) [(TYPE_VERTEX, v), (TYPE_PIXEL, p)] of
              Inl e \<Rightarrow> Inl e
            | Inr shaderids \<Rightarrow>
                if glCreateProgram (driver g) = 0 then Inl CannotCreateProgram
                else (case linkLog (driver g) shaderids of
                        Some warnings \<Rightarrow> Inl (CannotLink warnings)
                      | None \<Rightarrow> Inr (nextShader g)))"
    if p: "defaultSources g TYPE_PIXEL = Some p" for p
  proof (cases "compile_sources (driver g) [(TYPE_VERTEX, v), (TYPE_PIXEL, p)]")
    case (Inl e)
    then show ?thesis
      unfolding Shader_new_fst [OF ne] vs(3) using p by (simp add: vs(2))
  next
    case (Inr shaderids)
    then have "shaderids \<noteq> []" using compile_sources_length [OF Inr] by auto
    then show ?thesis
      unfolding Shader_new_fst [OF ne] vs(3) using p Inr by (simp add: vs(2))
  qed
  have A1: "fst (Shader_new sources g) = Inl NoDefaultPixelCode"
    if "defaultSources g TYPE_PIXEL = None"
    unfolding Shader_new_fst [OF ne] vs(3) using that by simp
  have A2: "fst (Shader_new sources g) \<noteq> Inl NoDefaultPixelCode"
    if p: "defaultSources g TYPE_PIXEL = Some p" for p
  proof (cases "compile_sources (driver g) [(TYPE_VERTEX, v), (TYPE_PIXEL, p)]")
    case (Inl e)
    then show ?thesis using B [OF p] compile_sources_error [OF Inl] by auto
  next
    case (Inr shaderids)
    then show ?thesis using B [OF p] by (auto split: option.split)
  qed
  have A: "(fst (Shader_new sources g) = Inl NoDefaultPixelCode) = (defaultSources g TYPE_PIXEL = None)"
    using A1 A2 by (cases "defaultSources g TYPE_PIXEL") auto
  have C: "fst (setDefaultSources defaults g0) = Inr () \<longrightarrow>
         defaultSources (snd (setDefaultSources defaults g0)) TYPE_PIXEL \<noteq> None"
    by (auto simp: setDefaultSources_def)
  have D: "defaultSources (initial drv) TYPE_PIXEL = None" by (simp add: initial_def)
  from A B C D show ?thesis by blast
qed

lemma defaults_registered_fields:
  "defaultSources defaults_registered TYPE_PIXEL = Some ''p''"
  "driver defaults_registered = example_driver"
  "nextShader defaults_registered = 0"
  by (simp_all add: defaults_registered_def setDefaultSources_def example_sources_def initial_def)

text \<open>
  C7 as stated fails when the driver rejects the vertex source: a default pixel source is
  registered, and the constructor throws \<open>CannotCompile\<close>.
\<close>

theorem vertex_only_construction_counterexample:
  "\<not> ((\<exists>this. fst (Shader_new (vertex_only ''bad'') defaults_registered) = Inr this)
       \<longleftrightarrow> defaultSources defaults_registered TYPE_PIXEL \<noteq> None)"
proof -
  have "fst (Shader_new (vertex_only ''bad'') defaults_registered)
      = Inl (CannotCompile TYPE_VERTEX ''syntax error'')"
    using Shader_new_fst [of "vertex_only ''bad''" defaults_registered]
    by (simp add: vertex_only_def sources_list_def shader_types_def List.map_filter_simps
          checkCodeCompleteness_def defaults_registered_fields compileCode_def example_driver_def)
  then show ?thesis by (simp add: defaults_registered_fields)
qed

theorem vertex_only_construction_witness:
  "vertex_only ''v'' TYPE_VERTEX = Some ''v'' \<and> vertex_only ''v'' TYPE_PIXEL = None
   \<and> vertex_only ''v'' TYPE_MAX_ENUM = None
   \<and> fst (Shader_new (vertex_only ''v'') (initial example_driver)) = Inl NoDefaultPixelCode
   \<and> fst (Shader_new (vertex_only ''v'') defaults_registered) = Inr 0
   \<and> fst (Shader_new (vertex_only ''bad'') defaults_registered)
       = Inl (CannotCompile TYPE_VERTEX ''syntax error'')"
proof -
  have v: "vertex_only s TYPE_VERTEX = Some s" "vertex_only s TYPE_PIXEL = None"
    "vertex_only s TYPE_MAX_ENUM = None" for s
    by (simp_all add: vertex_only_def)
  from vertex_only_construction [OF v [of "''v''"], where g = "initial example_driver"]
  have 1: "fst (Shader_new (vertex_only ''v'') (initial example_driver)) = Inl NoDefaultPixelCode"
    by (simp add: initial_def)
  from vertex_only_construction [OF v [of "''v''"], where g = defaults_registered]
  have 2: "fst (Shader_new (vertex_only ''v'') defaults_registered) = Inr 0"
    by (simp add: defaults_registered_fields example_driver_fields)
  from vertex_only_construction [OF v [of "''bad''"], where g = defaults_registered]
  have 3: "fst (Shader_new (vertex_only ''bad'') defaults_registered)
       = Inl (CannotCompile TYPE_VERTEX ''syntax error'')"
    by (simp add: defaults_registered_fields compileCode_def example_driver_def)
  show ?thesis using v 1 2 3 by blast
qed

lemma uniformCalls_rebind_textures:
  "uniformCalls (rebind_textures units c) = uniformCalls c"
proof -
  have "uniformCalls (foldl (\<lambda>c i. if units ! i > 0
            then bindTextureToUnit (units ! i) (int i + 1) False c else c) c [0..<k])
          = uniformCalls c" for k
    by (induction k) (simp_all add: bindTextureToUnit_def)
  then show ?thesis by (simp add: rebind_textures_def)
qed

lemma uniformCalls_attach:
  "uniformCalls (ctx (snd (attach this temporary g))) = uniformCalls (ctx g)"
  by (simp add: attach_def Let_def glUseProgram_def setActiveTextureUnit_def
      uniformCalls_rebind_textures split: option.split)

lemma uniformCalls_detach:
  "uniformCalls (ctx (snd (detach g))) = uniformCalls (ctx g)"
  by (simp add: detach_def uniformCalls_attach glUseProgram_def split: option.split)

lemma attach_alive: "shaders g this \<noteq> None \<Longrightarrow> fst (attach this temporary g) = Inr ()"
  by (auto simp: attach_def Let_def)

lemma TemporaryAttacher_alive:
  assumes live: "shaders g this \<noteq> None"
    and cur: "\<forall>p. currentShader g = Some p \<longrightarrow> shaders g p \<noteq> None"
    and dflt: "\<forall>d. defaultShader g = Some d \<longrightarrow> shaders g d \<noteq> None"
    and body: "\<And>g1 p. shaders g1 p \<noteq> None \<Longrightarrow> shaders (snd (body g1)) p \<noteq> None"
    and bodyd: "\<And>g1. defaultShader (snd (body g1)) = defaultShader g1"
  shows "fst (TemporaryAttacher this body g) = fst (body (snd (attach this True g)))"
    and "uniformCalls (ctx (snd (TemporaryAttacher this body g)))
           = uniformCalls (ctx (snd (body (snd (attach this True g)))))"
proof -
  obtain r1 g1 where a: "attach this True g = (r1, g1)" by (cases "attach this True g")
  have r1: "r1 = Inr ()" using attach_alive [OF live, of True] a by simp
  have s1: "same_books g g1" using same_books_attach [of g this True] a by simp
  obtain r2 g2 where b: "body g1 = (r2, g2)" by (cases "body g1")
  have alive2: "shaders g2 p \<noteq> None" if "shaders g p \<noteq> None" for p
    using body [of g1 p] that s1 b by (simp add: same_books_def)
  have d2: "defaultShader g2 = defaultShader g"
    using bodyd [of g1] b s1 by (simp add: same_books_def)
  let ?d = "case currentShader g of Some p \<Rightarrow> attach p False g2 | None \<Rightarrow> detach g2"
  have r3: "fst ?d = Inr ()"
  proof (cases "currentShader g")
    case (Some p)
    then show ?thesis using cur alive2 by (simp add: attach_alive)
  next
    case None
    then show ?thesis using dflt alive2 d2
      by (cases "defaultShader g") (simp_all add: detach_def attach_alive)
  qed
  have u3: "uniformCalls (ctx (snd ?d)) = uniformCalls (ctx g2)"
    by (cases "currentShader g") (simp_all add: uniformCalls_attach uniformCalls_detach)
  obtain g3 where c: "?d = (Inr (), g3)" using r3 by (cases ?d) simp
  have t: "TemporaryAttacher this body g = (r2, g3)"
    using a r1 b c by (simp add: TemporaryAttacher_def)
  show "fst (TemporaryAttacher this body g) = fst (body (snd (attach this True g)))"
    using t a b by simp
  show "uniformCalls (ctx (snd (TemporaryAttacher this body g)))
           = uniformCalls (ctx (snd (body (snd (attach this True g)))))"
    using t a b u3 c by simp
qed

lemma getUniformLocation_fst_cong:
  "shaders g1 = shaders g \<Longrightarrow> driver g1 = driver g \<Longrightarrow>
   fst (getUniformLocation this name unsafe g1) = fst (getUniformLocation this name unsafe g)"
  by (simp add: getUniformLocation_def Let_def split: option.split)

lemma getUniformLocation_frame:
  "ctx (snd (getUniformLocation this name unsafe g)) = ctx g"
  "defaultShader (snd (getUniformLocation this name unsafe g)) = defaultShader g"
  "shaders g p \<noteq> None \<Longrightarrow> shaders (snd (getUniformLocation this name unsafe g)) p \<noteq> None"
  by (auto simp: getUniformLocation_def Let_def setUniforms_def split: option.split)

lemma sendFloat_body_frame:
  "defaultShader (snd (sendFloat_body this name vsize vec count g)) = defaultShader g"
  "shaders g p \<noteq> None \<Longrightarrow> shaders (snd (sendFloat_body this name vsize vec count g)) p \<noteq> None"
proof -
  obtain r ga where l: "getUniformLocation this name False g = (r, ga)"
    by (cases "getUniformLocation this name False g")
  have d: "defaultShader ga = defaultShader g"
    using getUniformLocation_frame(2) [where this = this and name = name and unsafe = False and g = g] l
    by simp
  have a: "shaders ga p \<noteq> None" if "shaders g p \<noteq> None"
    using getUniformLocation_frame(3) [OF that, where this = this and name = name and unsafe = False] l
    by simp
  show "defaultShader (snd (sendFloat_body this name vsize vec count g)) = defaultShader g"
    using l d by (cases r) (simp_all add: sendFloat_body_def glUniform_def)
  show "shaders (snd (sendFloat_body this name vsize vec count g)) p \<noteq> None"
    if "shaders g p \<noteq> None"
    using l a [OF that] by (cases r) (simp_all add: sendFloat_body_def glUniform_def)
qed

lemma sendMatrix_body_frame:
  "defaultShader (snd (sendMatrix_body this name msize m count g)) = defaultShader g"
  "shaders g p \<noteq> None \<Longrightarrow> shaders (snd (sendMatrix_body this name msize m count g)) p \<noteq> None"
proof -
  obtain r ga where l: "getUniformLocation this name False g = (r, ga)"
    by (cases "getUniformLocation this name False g")
  have d: "defaultShader ga = defaultShader g"
    using getUniformLocation_frame(2) [where this = this and name = name and unsafe = False and g = g] l
    by simp
  have a: "shaders ga p \<noteq> None" if "shaders g p \<noteq> None"
    using getUniformLocation_frame(3) [OF that, where this = this and name = name and unsafe = False] l
    by simp
  show "defaultShader (snd (sendMatrix_body this name msize m count g)) = defaultShader g"
    using l d by (cases r) (simp_all add: sendMatrix_body_def glUniform_def)
  show "shaders (snd (sendMatrix_body this name msize m count g)) p \<noteq> None"
    if "shaders g p \<noteq> None"
    using l a [OF that] by (cases r) (simp_all add: sendMatrix_body_def glUniform_def)
qed

lemma sendFloat_body_result:
  "fst (sendFloat_body this name vsize vec count g) =
     (case fst (getUniformLocation this name False g) of
        Inl e \<Rightarrow> Inl e
      | Inr location \<Rightarrow>
          if vsize < 1 \<or> 4 < vsize then Inl (InvalidVariableSize vsize) else Inr ())"
  "uniformCalls (ctx (snd (sendFloat_body this name vsize vec count g))) =
     (case fst (getUniformLocation this name False g) of
        Inl e \<Rightarrow> uniformCalls (ctx g)
      | Inr location \<Rightarrow> uniformCalls (ctx g) @
          (if vsize = 1 then [Uniform1fv location count vec]
           else if vsize = 2 then [Uniform2fv location count vec]
           else if vsize = 3 then [Uniform3fv location count vec]
           else if vsize = 4 then [Uniform4fv location count vec]
           else []))"
proof -
  obtain r ga where l: "getUniformLocation this name False g = (r, ga)"
    by (cases "getUniformLocation this name False g")
  have c: "ctx ga = ctx g"
    using getUniformLocation_frame(1) [where this = this and name = name and unsafe = False and g = g] l
    by simp
  show "fst (sendFloat_body this name vsize vec count g) =
     (case fst (getUniformLocation this name False g) of
        Inl e \<Rightarrow> Inl e
      | Inr location \<Rightarrow>
          if vsize < 1 \<or> 4 < vsize then Inl (InvalidVariableSize vsize) else Inr ())"
    using l by (cases r) (simp_all add: sendFloat_body_def)
  show "uniformCalls (ctx (snd (sendFloat_body this name vsize vec count g))) =
     (case fst (getUniformLocation this name False g) of
        Inl e \<Rightarrow> uniformCalls (ctx g)
      | Inr location \<Rightarrow> uniformCalls (ctx g) @
          (if vsize = 1 then [Uniform1fv location count vec]
           else if vsize = 2 then [Uniform2fv location count vec]
           else if vsize = 3 then [Uniform3fv location count vec]
           else if vsize = 4 then [Uniform4fv location count vec]
           else []))"
    using l c by (cases r) (auto simp: sendFloat_body_def glUniform_def)
qed

lemma sendMatrix_body_result:
  "fst (sendMatrix_body this name msize m count g) =
     (case fst (getUniformLocation this name False g) of
        Inl e \<Rightarrow> Inl e
      | Inr location \<Rightarrow>
          if msize < 2 \<or> 4 < msize then Inl (InvalidMatrixSize msize) else Inr ())"
  "uniformCalls (ctx (snd (sendMatrix_body this name msize m count g))) =
     (case fst (getUniformLocation this name False g) of
        Inl e \<Rightarrow> uniformCalls (ctx g)
      | Inr location \<Rightarrow> uniformCalls (ctx g) @
          (if msize = 2 then [UniformMatrix2fv location count m]
           else if msize = 3 then [UniformMatrix3fv location count m]
           else if msize = 4 then [UniformMatrix4fv location count m]
           else []))"
proof -
  obtain r ga where l: "getUniformLocation this name False g = (r, ga)"
    by (cases "getUniformLocation this name False g")
  have c: "ctx ga = ctx g"
    using getUniformLocation_frame(1) [where this = this and name = name and unsafe = False and g = g] l
    by simp
  show "fst (sendMatrix_body this name msize m count g) =
     (case fst (getUniformLocation this name False g) of
        Inl e \<Rightarrow> Inl e
      | Inr location \<Rightarrow>
          if msize < 2 \<or> 4 < msize then Inl (InvalidMatrixSize msize) else Inr ())"
    using l by (cases r) (simp_all add: sendMatrix_body_def)
  show "uniformCalls (ctx (snd (sendMatrix_body this name msize m count g))) =
     (case fst (getUniformLocation this name False g) of
        Inl e \<Rightarrow> uniformCalls (ctx g)
      | Inr location \<Rightarrow> uniformCalls (ctx g) @
          (if msize = 2 then [UniformMatrix2fv location count m]
           else if msize = 3 then [UniformMatrix3fv location count m]
           else if msize = 4 then [UniformMatrix4fv location count m]
           else []))"
    using l c by (cases r) (auto simp: sendMatrix_body_def glUniform_def)
qed

text \<open>
  C8 (as amended). On a shader that is alive, with \<open>currentShader\<close> and \<open>defaultShader\<close>
  null or alive: when the location of the name cannot be resolved, \<open>sendFloat\<close> and
  \<open>sendMatrix\<close> throw that error whatever the size; when it resolves, \<open>sendFloat\<close> throws
  \<open>InvalidVariableSize\<close> for a size below 1 or above 4 and otherwise returns after exactly
  one call of \<open>glUniform1fv\<close> .. \<open>glUniform4fv\<close>, the one of that size, and
  \<open>sendMatrix\<close> throws \<open>InvalidMatrixSize\<close> for a size below 2 or above 4 and otherwise
  returns after exactly one call of \<open>glUniformMatrix2fv\<close> .. \<open>glUniformMatrix4fv\<close>.
\<close>

theorem sendFloat_sendMatrix_sizes:
  assumes live: "shaders g this \<noteq> None"
    and cur: "\<forall>p. currentShader g = Some p \<longrightarrow> shaders g p \<noteq> None"
    and dflt: "\<forall>d. defaultShader g = Some d \<longrightarrow> shaders g d \<noteq> None"
  shows "case fst (getUniformLocation this name False g) of
     Inl e \<Rightarrow>
       fst (sendFloat this name vsize vec count g) = Inl e
     \<and> fst (sendMatrix this name msize m count g) = Inl e
   | Inr location \<Rightarrow>
       fst (sendFloat this name vsize vec count g)
         = (if vsize < 1 \<or> 4 < vsize then Inl (InvalidVariableSize vsize) else Inr ())
     \<and> uniformCalls (ctx (snd (sendFloat this name vsize vec count g)))
         = uniformCalls (ctx g) @
             (if vsize = 1 then [Uniform1fv location count vec]
              else if vsize = 2 then [Uniform2fv location count vec]
              else if vsize = 3 then [Uniform3fv location count vec]
              else if vsize = 4 then [Uniform4fv location count vec]
              else [])
     \<and> fst (sendMatrix this name msize m count g)
         = (if msize < 2 \<or> 4 < msize then Inl (InvalidMatrixSize msize) else Inr ())
     \<and> uniformCalls (ctx (snd (sendMatrix this name msize m count g)))
         = uniformCalls (ctx g) @
             (if msize = 2 then [UniformMatrix2fv location count m]
              else if msize = 3 then [UniformMatrix3fv location count m]
              else if msize = 4 then [UniformMatrix4fv location count m]
              else [])"
proof -
  let ?g1 = "snd (attach this True g)"
  have s1: "same_books g ?g1" by (rule same_books_attach)
  have loc: "fst (getUniformLocation this name False ?g1) = fst (getUniformLocation this name False g)"
    by (rule getUniformLocation_fst_cong) (use s1 in \<open>simp_all add: same_books_def\<close>)
  have u1: "uniformCalls (ctx ?g1) = uniformCalls (ctx g)" by (rule uniformCalls_attach)
  have sf: "sendFloat this name vsize vec count g
      = TemporaryAttacher this (sendFloat_body this name vsize vec count) g"
    by (simp add: sendFloat_def)
  have sm: "sendMatrix this name msize m count g
      = TemporaryAttacher this (sendMatrix_body this name msize m count) g"
    by (simp add: sendMatrix_def)
  have f: "fst (TemporaryAttacher this (sendFloat_body this name vsize vec count) g)
        = fst (sendFloat_body this name vsize vec count ?g1)"
      "uniformCalls (ctx (snd (TemporaryAttacher this (sendFloat_body this name vsize vec count) g)))
        = uniformCalls (ctx (snd (sendFloat_body this name vsize vec count ?g1)))"
    by (rule TemporaryAttacher_alive [OF live cur dflt]; simp add: sendFloat_body_frame)+
  have m: "fst (TemporaryAttacher this (sendMatrix_body this name msize m count) g)
        = fst (sendMatrix_body this name msize m count ?g1)"
      "uniformCalls (ctx (snd (TemporaryAttacher this (sendMatrix_body this name msize m count) g)))
        = uniformCalls (ctx (snd (sendMatrix_body this name msize m count ?g1)))"
    by (rule TemporaryAttacher_alive [OF live cur dflt]; simp add: sendMatrix_body_frame)+
  have "fst (sendFloat this name vsize vec count g)
      = (case fst (getUniformLocation this name False g) of
        Inl e \<Rightarrow> Inl e
      | Inr location \<Rightarrow>
          if vsize < 1 \<or> 4 < vsize then Inl (InvalidVariableSize vsize) else Inr ())"
    unfolding sf f(1) sendFloat_body_result(1) loc ..
  moreover have "uniformCalls (ctx (snd (sendFloat this name vsize vec count g)))
      = (case fst (getUniformLocation this name False g) of
        Inl e \<Rightarrow> uniformCalls (ctx g)
      | Inr location \<Rightarrow> uniformCalls (ctx g) @
          (if vsize = 1 then [Uniform1fv location count vec]
           else if vsize = 2 then [Uniform2fv location count vec]
           else if vsize = 3 then [Uniform3fv location count vec]
           else if vsize = 4 then [Uniform4fv location count vec]
           else []))"
    unfolding sf f(2) sendFloat_body_result(2) loc u1 ..
  moreover have "fst (sendMatrix this name msize m count g)
      = (case fst (getUniformLocation this name False g) of
        Inl e \<Rightarrow> Inl e
      | Inr location \<Rightarrow>
          if msize < 2 \<or> 4 < msize then Inl (InvalidMatrixSize msize) else Inr ())"
    unfolding sm m(1) sendMatrix_body_result(1) loc ..
  moreover have "uniformCalls (ctx (snd (sendMatrix this name msize m count g)))
      = (case fst (getUniformLocation this name False g) of
        Inl e \<Rightarrow> uniformCalls (ctx g)
      | Inr location \<Rightarrow> uniformCalls (ctx g) @
          (if msize = 2 then [UniformMatrix2fv location count m]
           else if msize = 3 then [UniformMatrix3fv location count m]
           else if msize = 4 then [UniformMatrix4fv location count m]
           else []))"
    unfolding sm m(2) sendMatrix_body_result(2) loc u1 ..
  ultimately show ?thesis
    by (cases "fst (getUniformLocation this name False g)") simp_all
qed

theorem sendFloat_sendMatrix_sizes_witness:
  "shaders one_shader 0 \<noteq> None \<and> currentShader one_shader = None
   \<and> defaultShader one_shader = None
   \<and> fst (getUniformLocation 0 ''color'' False one_shader) = Inr 5
   \<and> fst (sendFloat 0 ''color'' 0 0 1 one_shader) = Inl (InvalidVariableSize 0)
   \<and> fst (sendFloat 0 ''color'' 5 0 1 one_shader) = Inl (InvalidVariableSize 5)
   \<and> fst (sendFloat 0 ''color'' 3 0 1 one_shader) = Inr ()
   \<and> uniformCalls (ctx (snd (sendFloat 0 ''color'' 3 0 1 one_shader))) = [Uniform3fv 5 1 0]
   \<and> fst (sendMatrix 0 ''color'' 1 0 1 one_shader) = Inl (InvalidMatrixSize 1)
   \<and> fst (sendMatrix 0 ''color'' 5 0 1 one_shader) = Inl (InvalidMatrixSize 5)
   \<and> fst (sendMatrix 0 ''color'' 2 0 1 one_shader) = Inr ()
   \<and> uniformCalls (ctx (snd (sendMatrix 0 ''color'' 2 0 1 one_shader))) = [UniformMatrix2fv 5 1 0]"
proof -
  have live: "shaders one_shader 0 \<noteq> None" and cur: "currentShader one_shader = None"
    and dflt: "defaultShader one_shader = None"
    by (simp_all add: one_shader_def)
  have loc: "fst (getUniformLocation 0 ''color'' False one_shader) = Inr 5"
    by (simp add: getUniformLocation_def one_shader_def example_shader_def Let_def
        example_driver_fields)
  have u: "uniformCalls (ctx one_shader) = []" by (simp add: one_shader_def)
  have cur': "\<forall>p. currentShader one_shader = Some p \<longrightarrow> shaders one_shader p \<noteq> None"
    and dflt': "\<forall>d. defaultShader one_shader = Some d \<longrightarrow> shaders one_shader d \<noteq> None"
    by (simp_all add: cur dflt)
  note inst = sendFloat_sendMatrix_sizes [OF live cur' dflt', where name = "''color''"
      and vec = 0 and count = 1 and m = 0, unfolded loc u]
  from inst [where vsize = 0 and msize = 1]
  have a: "fst (sendFloat 0 ''color'' 0 0 1 one_shader) = Inl (InvalidVariableSize 0)"
    and d: "fst (sendMatrix 0 ''color'' 1 0 1 one_shader) = Inl (InvalidMatrixSize 1)"
    by simp_all
  from inst [where vsize = 5 and msize = 5]
  have b: "fst (sendFloat 0 ''color'' 5 0 1 one_shader) = Inl (InvalidVariableSize 5)"
    and e: "fst (sendMatrix 0 ''color'' 5 0 1 one_shader) = Inl (InvalidMatrixSize 5)"
    by simp_all
  from inst [where vsize = 3 and msize = 2]
  have c: "fst (sendFloat 0 ''color'' 3 0 1 one_shader) = Inr ()"
    "uniformCalls (ctx (snd (sendFloat 0 ''color'' 3 0 1 one_shader))) = [Uniform3fv 5 1 0]"
    and f: "fst (sendMatrix 0 ''color'' 2 0 1 one_shader) = Inr ()"
    "uniformCalls (ctx (snd (sendMatrix 0 ''color'' 2 0 1 one_shader))) = [UniformMatrix2fv 5 1 0]"
    by simp_all
  show ?thesis using live cur dflt loc a b c d e f by blast
qed

text \<open>
  C8 as stated fails for a name that the program does not have: the location is looked up
  before the size is checked, so size 0 does not give the invalid-size error and size 1 does
  not succeed.
\<close>

theorem sendFloat_unresolved_name_counterexample:
  "fst (sendFloat 0 ''missing'' 0 0 1 one_shader) \<noteq> Inl (InvalidVariableSize 0)
   \<and> fst (sendFloat 0 ''missing'' 1 0 1 one_shader) \<noteq> Inr ()
   \<and> fst (sendMatrix 0 ''missing'' 1 0 1 one_shader) \<noteq> Inl (InvalidMatrixSize 1)
   \<and> fst (sendMatrix 0 ''missing'' 2 0 1 one_shader) \<noteq> Inr ()"
proof -
  have f: "fst (sendFloat 0 ''missing'' vsize 0 1 one_shader) = Inl (CannotGetLocation ''missing'')"
    for vsize
    by (simp add: sendFloat_def sendFloat_body_def TemporaryAttacher_def attach_def detach_def glUseProgram_def
        getUniformLocation_def Let_def one_shader_def example_shader_def example_driver_fields)
  have m: "fst (sendMatrix 0 ''missing'' msize 0 1 one_shader) = Inl (CannotGetLocation ''missing'')"
    for msize
    by (simp add: sendMatrix_def sendMatrix_body_def TemporaryAttacher_def attach_def detach_def glUseProgram_def
        getUniformLocation_def Let_def one_shader_def example_shader_def example_driver_fields)
  show ?thesis by (simp add: f m)
qed

lemma send_empty_first: "sendTexture 0 ''tex'' 0 one_shader = (Inr (), empty_sent 1)"
  by (simp add: send_defs one_shader_def example_shader_def empty_sent_def
      example_driver_fields fun_upd_idem int32_def)

lemma send_empty_second: "sendTexture 0 ''tex'' 0 (empty_sent 1) = (Inr (), empty_sent 2)"
  by (simp add: send_defs example_shader_def empty_sent_def
      example_driver_fields fun_upd_idem numeral_2_eq_2 int32_def)

lemma unload_empty: "textureCounters (snd (unloadVolatile 0 (empty_sent 2))) = [2, 0]"
  by (simp add: unloadVolatile_def Let_def empty_sent_def example_shader_def
      decrement_counters_def numeral_2_eq_2)

text \<open>
  C2. \<open>sendTexture\<close> with the texture handle 0, twice, on a fresh shader: both calls
  return, the counter of unit 1 goes from 0 to 1 to 2, and the shader's record of that unit
  stays 0 throughout; \<open>unloadVolatile\<close> then leaves the counter at 2. The counter is
  incremented whenever the record is 0 before the call, not only the first time the shader
  records a texture there.
\<close>

theorem sendTexture_empty_handle_counts_again:
  "sendTexture 0 ''tex'' 0 one_shader = (Inr (), empty_sent 1)
   \<and> sendTexture 0 ''tex'' 0 (empty_sent 1) = (Inr (), empty_sent 2)
   \<and> textureCounters one_shader = [0, 0]
   \<and> textureCounters (empty_sent 1) = [1, 0]
   \<and> textureCounters (empty_sent 2) = [2, 0]
   \<and> map_option activeTextureUnits (shaders (empty_sent 2) 0) = Some [0, 0]
   \<and> textureCounters (snd (unloadVolatile 0 (empty_sent 2))) = [2, 0]"
  by (simp add: send_empty_first send_empty_second unload_empty)
     (simp add: empty_sent_def one_shader_def example_shader_def)






end
